theory Spec2Isabelle
  imports Main "HOL-Library.AList" "HOL-Library.Sublist"
begin

section \<open>Python values\<close>

text \<open>
  The client handles request parameters (keyword arguments) and decoded JSON bodies as
  plain Python values. A dictionary is an association list in insertion order with
  string keys; \<open>AList.update\<close> overwrites in place or appends, as a Python dict does,
  and a dictionary handed to the client has distinct keys. Numbers are integers
  (floating-point numbers are left out), and text is ASCII, which is all that
  \<^verbatim>\<open>upper\<close>, \<^verbatim>\<open>lower\<close> and \<^verbatim>\<open>repr\<close> are modelled for.
\<close>

datatype pyval =
    PNone
  | PBool bool
  | PInt int
  | PStr string
  | PBytes string
  | PList "pyval list"
  | PDict "(string \<times> pyval) list"

type_synonym pydict = "(string \<times> pyval) list"

fun is_dict :: "pyval \<Rightarrow> bool" where
  "is_dict (PDict d) = True"
| "is_dict v = False"

fun is_bool :: "pyval \<Rightarrow> bool" where
  "is_bool (PBool b) = True"
| "is_bool v = False"

fun is_list :: "pyval \<Rightarrow> bool" where
  "is_list (PList xs) = True"
| "is_list v = False"

text \<open>Truth value of an object, as tested by \<^verbatim>\<open>if v\<close> and \<^verbatim>\<open>not v\<close>.\<close>

fun truthy :: "pyval \<Rightarrow> bool" where
  "truthy PNone = False"
| "truthy (PBool b) = b"
| "truthy (PInt i) = (i \<noteq> 0)"
| "truthy (PStr s) = (s \<noteq> [])"
| "truthy (PBytes s) = (s \<noteq> [])"
| "truthy (PList xs) = (xs \<noteq> [])"
| "truthy (PDict d) = (d \<noteq> [])"

text \<open>\<^verbatim>\<open>d.get(k, default)\<close> on a dictionary.\<close>

definition dict_get :: "pydict \<Rightarrow> string \<Rightarrow> pyval \<Rightarrow> pyval" where
  "dict_get d k dflt = (case map_of d k of None \<Rightarrow> dflt | Some v \<Rightarrow> v)"

subsection \<open>Text of a value\<close>

definition digit_char :: "nat \<Rightarrow> char" where
  "digit_char n = ''0123456789abcdef'' ! n"

fun nat_digits :: "nat \<Rightarrow> string" where
  "nat_digits n = (if n < 10 then [digit_char n] else nat_digits (n div 10) @ [digit_char (n mod 10)])"

declare nat_digits.simps [simp del]

definition str_int :: "int \<Rightarrow> string" where
  "str_int i = (if i < 0 then CHR ''-'' # nat_digits (nat (- i)) else nat_digits (nat i))"

definition hex2 :: "char \<Rightarrow> string" where
  "hex2 c = [digit_char (of_char c div 16), digit_char (of_char c mod 16)]"

text \<open>
  \<^verbatim>\<open>repr\<close> of a string or of a bytes object: the quote is a double quote only when
  the text has a single quote and no double quote; the backslash, the quote and the control
  characters are escaped.
\<close>

definition repr_quote :: "string \<Rightarrow> char" where
  "repr_quote s = (if CHR 0x27 \<in> set s \<and> CHR 0x22 \<notin> set s then CHR 0x22 else CHR 0x27)"

definition repr_char :: "char \<Rightarrow> char \<Rightarrow> string" where
  "repr_char q c =
     (if c = CHR 0x5C then [CHR 0x5C, CHR 0x5C]
      else if c = q then [CHR 0x5C, c]
      else if c = CHR 0x0A then [CHR 0x5C, CHR ''n'']
      else if c = CHR 0x0D then [CHR 0x5C, CHR ''r'']
      else if c = CHR 0x09 then [CHR 0x5C, CHR ''t'']
      else if (of_char c :: nat) < 32 \<or> (of_char c :: nat) \<ge> 127 then [CHR 0x5C, CHR ''x''] @ hex2 c
      else [c])"

definition repr_str :: "string \<Rightarrow> string" where
  "repr_str s = (let q = repr_quote s in q # concat (map (repr_char q) s) @ [q])"

fun join :: "string \<Rightarrow> string list \<Rightarrow> string" where
  "join sep [] = []"
| "join sep [x] = x"
| "join sep (x # y # ys) = x @ sep @ join sep (y # ys)"

fun py_repr :: "pyval \<Rightarrow> string" where
  "py_repr PNone = ''None''"
| "py_repr (PBool b) = (if b then ''True'' else ''False'')"
| "py_repr (PInt i) = str_int i"
| "py_repr (PStr s) = repr_str s"
| "py_repr (PBytes s) = CHR ''b'' # repr_str s"
| "py_repr (PList xs) = ''['' @ join '', '' (map py_repr xs) @ '']''"
| "py_repr (PDict d) =
     ''{'' @ join '', '' (map (\<lambda>(k, v). repr_str k @ '': '' @ py_repr v) d) @ ''}''"

text \<open>\<^verbatim>\<open>str(v)\<close>, which is also what \<^verbatim>\<open>%s\<close> inserts.\<close>

definition py_str :: "pyval \<Rightarrow> string" where
  "py_str v = (case v of PStr s \<Rightarrow> s | _ \<Rightarrow> py_repr v)"

text \<open>
  \<^verbatim>\<open>fmt % args\<close> for a format whose only conversions are \<^verbatim>\<open>%s\<close>, given the
  texts of the arguments in order.
\<close>

fun format :: "string \<Rightarrow> string list \<Rightarrow> string" where
  "format (c # d # cs) (a # args) =
     (if c = CHR ''%'' \<and> d = CHR ''s'' then a @ format cs args
      else c # format (d # cs) (a # args))"
| "format cs args = cs"

definition lower_char :: "char \<Rightarrow> char" where
  "lower_char c =
     (case map_of (zip ''ABCDEFGHIJKLMNOPQRSTUVWXYZ'' ''abcdefghijklmnopqrstuvwxyz'') c of
        None \<Rightarrow> c | Some l \<Rightarrow> l)"

definition upper_char :: "char \<Rightarrow> char" where
  "upper_char c =
     (case map_of (zip ''abcdefghijklmnopqrstuvwxyz'' ''ABCDEFGHIJKLMNOPQRSTUVWXYZ'') c of
        None \<Rightarrow> c | Some u \<Rightarrow> u)"

definition lower :: "string \<Rightarrow> string" where
  "lower s = map lower_char s"

definition upper :: "string \<Rightarrow> string" where
  "upper s = map upper_char s"

section \<open>Exceptions\<close>

text \<open>
  \<^verbatim>\<open>StripeError\<close> objects carry the fields of the provider's error payload, the HTTP
  status and, as \<open>args\<close>, the one-line summary handed to \<^verbatim>\<open>Exception.__init__\<close>.
\<close>

record stripe_error =
  type :: pyval
  charge :: pyval
  message :: pyval
  code :: pyval
  decline_code :: pyval
  param :: pyval
  http_code :: int
  args :: string

datatype exn =
    StripeError stripe_error
  | ParseError string
  | DeletionError string
  | AttributeError
  | TypeError
  | KeyError string

text \<open>
  \<^verbatim>\<open>getattr(self, key, default)\<close> on a \<^verbatim>\<open>StripeError\<close> under construction: the
  attributes are the ones \<^verbatim>\<open>__init__\<close> has assigned; any other name gives the default.
\<close>

definition getattr :: "stripe_error \<Rightarrow> string \<Rightarrow> pyval \<Rightarrow> pyval" where
  "getattr self key dflt =
     (if key = ''type'' then type self
      else if key = ''charge'' then charge self
      else if key = ''message'' then message self
      else if key = ''code'' then code self
      else if key = ''decline_code'' then decline_code self
      else if key = ''param'' then param self
      else if key = ''http_code'' then PInt (http_code self)
      else dflt)"

definition addstr :: "stripe_error \<Rightarrow> string \<Rightarrow> string \<Rightarrow> string" where
  "addstr self key fmt =
     (let v = getattr self key PNone
      in if v \<noteq> PNone \<and> truthy v then format fmt [py_str v] else '''')"

definition StripeError_init :: "int \<Rightarrow> pyval \<Rightarrow> exn + stripe_error" where
  \<open>StripeError_init resp_status body =
     (let self = \<lparr>type = PNone, charge = PNone, message = PNone, code = PNone,
                  decline_code = PNone, param = PNone, http_code = resp_status, args = ''''\<rparr>
      in case (case body of
                 PDict b \<Rightarrow>
                   (let err = dict_get b ''error'' (PDict [])
                    in if truthy err then
                         (case err of
                            PDict e \<Rightarrow>
                              Inr (self\<lparr>type := dict_get e ''type'' (PStr ''''),
                                        charge := dict_get e ''charge'' (PStr ''''),
                                        message := dict_get e ''message'' (PStr ''''),
                                        code := dict_get e ''code'' (PStr ''''),
                                        decline_code := dict_get e ''decline_code'' (PStr ''''),
                                        param := dict_get e ''param'' (PStr '''')\<rparr>)
                          | _ \<Rightarrow> Inl AttributeError)
                       else Inr self)
               | _ \<Rightarrow> Inr self) of
           Inl x \<Rightarrow> Inl x
         | Inr self \<Rightarrow>
             Inr (self\<lparr>args :=
                    format ''%s:%s%s%s%s%s%s''
                      [str_int resp_status,
                       addstr self ''type'' '' %s:'',
                       addstr self ''charge'' '' charge: %s'',
                       addstr self ''message'' '' message: "%s"'',
                       addstr self ''code'' '' code: %s'',
                       addstr self ''decline'' '' decline: %s'',
                       addstr self ''param'' '' param: %s'']\<rparr>))\<close>

section \<open>Response normalization\<close>

text \<open>A list comprehension whose element expression may raise: the first failure wins.\<close>

primrec collect :: "('a \<Rightarrow> 'e + 'b) \<Rightarrow> 'a list \<Rightarrow> 'e + 'b list" where
  "collect f [] = Inr []"
| "collect f (x # xs) =
     (case f x of
        Inl e \<Rightarrow> Inl e
      | Inr y \<Rightarrow> (case collect f xs of Inl e \<Rightarrow> Inl e | Inr ys \<Rightarrow> Inr (y # ys)))"

lemma collect_cong [fundef_cong]:
  "xs = ys \<Longrightarrow> (\<And>x. x \<in> set ys \<Longrightarrow> f x = g x) \<Longrightarrow> collect f xs = collect g ys"
  by (induction ys arbitrary: xs) (auto split: sum.splits)

text \<open>
  What a \<^verbatim>\<open>for\<close> loop sees in a value: the elements of a list, the keys of a
  dictionary, the one-character strings of a string, the byte values of a bytes object;
  anything else is not iterable.
\<close>

fun py_iter :: "pyval \<Rightarrow> exn + pyval list" where
  "py_iter (PList xs) = Inr xs"
| "py_iter (PDict d) = Inr (map (\<lambda>(k, v). PStr k) d)"
| "py_iter (PStr s) = Inr (map (\<lambda>c. PStr [c]) s)"
| "py_iter (PBytes s) = Inr (map (\<lambda>c. PInt (of_char c)) s)"
| "py_iter v = Inl TypeError"

lemma size_map_of:
  "map_of d k = Some v \<Longrightarrow> size v < Suc (size_list (size_prod (\<lambda>x. 0) size) d)"
  by (induction d) (auto split: if_splits)

lemma size_mem: "x \<in> set xs \<Longrightarrow> size x < Suc (size_list size xs)"
  by (induction xs) auto

lemma size_py_iter:
  "py_iter dv = Inr items \<Longrightarrow> x \<in> set items \<Longrightarrow> size x < Suc (size dv)"
  by (cases dv) (auto dest: size_mem)

function (sequential) convert_json_response :: "pyval \<Rightarrow> exn + pyval" where
  "convert_json_response (PList xs) =
     (case collect convert_json_response xs of Inl e \<Rightarrow> Inl e | Inr ys \<Rightarrow> Inr (PList ys))"
| "convert_json_response (PDict d) =
     (if dict_get d ''object'' (PStr '''') = PStr ''list'' then
        (case map_of d ''data'' of
           None \<Rightarrow> Inl (KeyError ''data'')
         | Some dv \<Rightarrow>
            (case py_iter dv of
               Inl e \<Rightarrow> Inl e
             | Inr items \<Rightarrow>
                (case collect convert_json_response items of
                   Inl e \<Rightarrow> Inl e
                 | Inr ys \<Rightarrow> Inr (PList ys))))
      else Inr (PDict d))"
| "convert_json_response resp = Inr resp"
  by pat_completeness auto

termination
proof (relation "measure size", goal_cases)
  case 1
  show ?case by simp
next
  case (2 xs x)
  then show ?case using size_mem [of x xs] by simp
next
  case (3 d dv items x)
  then show ?case
    using size_map_of [of d "''data''" dv] size_py_iter [of dv items x] by simp
qed

section \<open>Parameter encoding\<close>

text \<open>
  The two loops at the head of \<^verbatim>\<open>Client._req\<close> rewrite the \<^verbatim>\<open>params\<close> dictionary in
  place. The model passes the dictionary through and returns its final contents together
  with the exception, if any, that stopped the rewriting.
\<close>

definition dict_keys :: "pydict \<Rightarrow> string list" where
  "dict_keys ps = map fst (filter (\<lambda>(k, v). is_dict v) ps)"

definition subparam :: "string \<Rightarrow> string \<Rightarrow> string" where
  "subparam key subkey = format ''%s[%s]'' [key, subkey]"

definition flatten_key :: "string \<Rightarrow> pydict \<Rightarrow> pydict \<Rightarrow> pydict" where
  "flatten_key key sub ps =
     AList.delete key (fold (\<lambda>(subkey, v). AList.update (subparam key subkey) v) sub ps)"

fun flatten_keys :: "string list \<Rightarrow> pydict \<Rightarrow> pydict \<times> exn option" where
  "flatten_keys [] ps = (ps, None)"
| "flatten_keys (key # keys) ps =
     (case map_of ps key of
        None \<Rightarrow> (ps, Some (KeyError key))
      | Some (PDict sub) \<Rightarrow> flatten_keys keys (flatten_key key sub ps)
      | Some _ \<Rightarrow> (ps, Some AttributeError))"

definition bool_updates :: "pydict \<Rightarrow> pydict" where
  "bool_updates ps =
     map (\<lambda>(k, v). (k, PStr (lower (py_str v)))) (filter (\<lambda>(k, v). is_bool v) ps)"

definition bools_to_strings :: "pydict \<Rightarrow> pydict" where
  "bools_to_strings ps = fold (\<lambda>(k, v). AList.update k v) (bool_updates ps) ps"

definition encode_params :: "pydict \<Rightarrow> pydict \<times> exn option" where
  "encode_params ps =
     (case flatten_keys (dict_keys ps) ps of
        (ps', Some e) \<Rightarrow> (ps', Some e)
      | (ps', None) \<Rightarrow> (bools_to_strings ps', None))"

section \<open>The request\<close>

record client =
  c_auth :: string
  c_url :: string
  c_version :: string

record request =
  meth :: string
  url :: string
  params :: pydict
  auth :: string
  headers :: "(string \<times> string) list"

text \<open>
  What the HTTP session answers: the status, the \<^verbatim>\<open>Content-Type\<close> header if there is
  one, the value \<^verbatim>\<open>r.json()\<close> decodes and the bytes \<^verbatim>\<open>r.read()\<close> gives.
\<close>

record response =
  status :: int
  content_type :: "string option"
  json :: pyval
  raw :: string

definition DEFAULT_VERSION :: string where
  "DEFAULT_VERSION = ''2017-02-14''"

definition Client_init :: "string \<Rightarrow> string \<Rightarrow> client" where
  "Client_init pk version =
     \<lparr>c_auth = pk, c_url = ''https://api.stripe.com/v1'', c_version = version\<rparr>"

definition lstrip :: "char \<Rightarrow> string \<Rightarrow> string" where
  "lstrip c s = dropWhile (\<lambda>x. x = c) s"

definition startswith :: "string \<Rightarrow> string \<Rightarrow> bool" where
  "startswith s p = (take (length p) s = p)"

text \<open>\<^verbatim>\<open>s in body\<close> for a string \<open>s\<close>.\<close>

fun py_in :: "string \<Rightarrow> pyval \<Rightarrow> exn + bool" where
  "py_in s (PDict d) = Inr (map_of d s \<noteq> None)"
| "py_in s (PList xs) = Inr (PStr s \<in> set xs)"
| "py_in s (PStr t) = Inr (sublist s t)"
| "py_in s v = Inl TypeError"

text \<open>The request handed to the session, and the body read from its response.\<close>

definition make_request :: "client \<Rightarrow> string \<Rightarrow> string \<Rightarrow> pydict \<Rightarrow> request" where
  "make_request self method page ps =
     \<lparr>meth = upper method,
      url = c_url self @ ''/'' @ lstrip CHR ''/'' page,
      params = ps,
      auth = c_auth self,
      headers = [(''Content-Type'', ''application/x-www-form-urlencoded''),
                 (''Stripe-Version'', c_version self)]\<rparr>"

definition read_body :: "response \<Rightarrow> pyval" where
  "read_body r =
     (if startswith (case content_type r of None \<Rightarrow> '''' | Some t \<Rightarrow> t) ''application/json''
      then json r else PBytes (raw r))"

text \<open>
  \<^verbatim>\<open>Client._req\<close>. The session is a function from the request sent to the response
  received. The result pairs the final contents of the \<^verbatim>\<open>params\<close> dictionary with
  the outcome: the exception raised or the value returned (\<open>PNone\<close> for a bare
  \<^verbatim>\<open>return\<close>).
\<close>

definition Client_req ::
  "(request \<Rightarrow> response) \<Rightarrow> client \<Rightarrow> string \<Rightarrow> string \<Rightarrow> pydict option
     \<Rightarrow> pydict \<times> (exn + pyval)" where
  \<open>Client_req session self method page params0 =
     (case encode_params (case params0 of None \<Rightarrow> [] | Some p \<Rightarrow> p) of
        (params', Some e) \<Rightarrow> (params', Inl e)
      | (params', None) \<Rightarrow>
         (params',
          let r = session (make_request self method page params');
              body = read_body r
          in if status r \<noteq> 200 then
               (case StripeError_init (status r) body of
                  Inl e \<Rightarrow> Inl e
                | Inr err \<Rightarrow> Inl (StripeError err))
             else if upper method = ''DELETE'' then
               (case body of
                  PDict b \<Rightarrow>
                    if \<not> truthy (dict_get b ''deleted'' (PBool False)) then
                      Inl (DeletionError
                             (format ''Failed to delete %s'' [py_str (dict_get b ''id'' PNone)]))
                    else Inr PNone
                | _ \<Rightarrow> Inl AttributeError)
             else
               (case py_in ''object'' body of
                  Inl e \<Rightarrow> Inl e
                | Inr False \<Rightarrow>
                    Inl (ParseError
                           (format ''Stripe response missing "object": %s'' [py_str body]))
                | Inr True \<Rightarrow> convert_json_response body)))\<close>

text \<open>
  Endpoint methods. Each receives its keyword arguments in a dictionary of its own, so
  only the outcome of \<^verbatim>\<open>_req\<close> is visible to the caller.
\<close>

definition create_charge ::
  "(request \<Rightarrow> response) \<Rightarrow> client \<Rightarrow> pyval \<Rightarrow> pyval \<Rightarrow> pydict \<Rightarrow> exn + pyval" where
  "create_charge session self amount currency kwds =
     (let params = fold (\<lambda>(k, v). AList.update k v) kwds
                     [(''amount'', amount), (''currency'', currency)]
      in snd (Client_req session self ''post'' ''/charges'' (Some params)))"

definition update_charge ::
  "(request \<Rightarrow> response) \<Rightarrow> client \<Rightarrow> pyval \<Rightarrow> pydict \<Rightarrow> exn + pyval" where
  "update_charge session self charge_id kwds =
     snd (Client_req session self ''post'' (format ''/charges/%s'' [py_str charge_id]) (Some kwds))"

definition delete_customer ::
  "(request \<Rightarrow> response) \<Rightarrow> client \<Rightarrow> pyval \<Rightarrow> exn + pyval" where
  "delete_customer session self customer_id =
     (case snd (Client_req session self ''delete''
                  (format ''/customers/%s'' [py_str customer_id]) None) of
        Inl e \<Rightarrow> Inl e
      | Inr _ \<Rightarrow> Inr PNone)"

definition list_customers ::
  "(request \<Rightarrow> response) \<Rightarrow> client \<Rightarrow> pydict \<Rightarrow> exn + pyval" where
  "list_customers session self kwds =
     snd (Client_req session self ''get'' ''/customers'' (Some kwds))"

section \<open>Predicates on values\<close>

text \<open>
  A list envelope is what the second branch of \<^verbatim>\<open>convert_json_response\<close> tests for: a
  dictionary whose \<^verbatim>\<open>object\<close> entry is the string \<^verbatim>\<open>list\<close>.
\<close>

fun is_envelope :: "pyval \<Rightarrow> bool" where
  "is_envelope (PDict d) = (dict_get d ''object'' (PStr '''') = PStr ''list'')"
| "is_envelope v = False"

text \<open>
  A value is free of envelopes when normalization has nothing to unwrap in it: it is not an
  envelope, and if it is a list, neither are its elements, recursively.
\<close>

fun envelope_free :: "pyval \<Rightarrow> bool" where
  "envelope_free (PList xs) = (\<forall>x \<in> set xs. envelope_free x)"
| "envelope_free (PDict d) = (\<not> is_envelope (PDict d))"
| "envelope_free v = True"

text \<open>Every list envelope anywhere inside the value has a \<^verbatim>\<open>data\<close> entry.\<close>

fun lists_have_data :: "pyval \<Rightarrow> bool" where
  "lists_have_data (PList xs) = (\<forall>x \<in> set xs. lists_have_data x)"
| "lists_have_data (PDict d) =
     ((is_envelope (PDict d) \<longrightarrow> map_of d ''data'' \<noteq> None) \<and>
      (\<forall>v \<in> snd ` set d. lists_have_data v))"
| "lists_have_data v = True"

section \<open>Predicates on parameters\<close>

text \<open>
  What the boolean step makes of a value: a boolean becomes the lower-case text of
  \<^verbatim>\<open>str(v)\<close>, any other value is left as it is.
\<close>

definition encoded_value :: "pyval \<Rightarrow> pyval" where
  "encoded_value v = (if is_bool v then PStr (lower (py_str v)) else v)"

text \<open>
  A parameter dictionary is one level deep when no nested dictionary holds a dictionary.
\<close>

fun scalar_entries :: "pyval \<Rightarrow> bool" where
  "scalar_entries (PDict sub) = (\<forall>va \<in> snd ` set sub. \<not> is_dict va)"
| "scalar_entries v = True"

definition one_level :: "pydict \<Rightarrow> bool" where
  "one_level ps = (\<forall>v \<in> snd ` set ps. scalar_entries v)"

text \<open>
  The values a flat encoding has to carry: the values that are not dictionaries and the
  values held by the nested dictionaries.
\<close>

fun leaf_values :: "pyval \<Rightarrow> pyval list" where
  "leaf_values (PDict sub) = map snd sub"
| "leaf_values v = [v]"

definition leaves :: "pydict \<Rightarrow> pyval list" where
  "leaves ps = concat (map (\<lambda>(k, v). leaf_values v) ps)"

text \<open>
  The names the flattening makes, and the condition that keys are unique before the
  flattening and remain unique after it: no made name is a key, and no name is made twice.
\<close>

fun flat_names :: "string \<times> pyval \<Rightarrow> string list" where
  "flat_names (k, PDict sub) = map (\<lambda>(a, va). subparam k a) sub"
| "flat_names (k, v) = []"

definition keys_stay_unique :: "pydict \<Rightarrow> bool" where
  "keys_stay_unique ps = distinct (map fst ps @ concat (map flat_names ps))"

section \<open>The flattened form\<close>

text \<open>
  What the parameters are meant to be after the encoding: each entry whose value is a
  dictionary is replaced by the entries of that dictionary under the names
  \<^verbatim>\<open>key[subkey]\<close>, and booleans are written as strings.
\<close>

fun flat_entry :: "string \<times> pyval \<Rightarrow> pydict" where
  "flat_entry (k, PDict sub) = map (\<lambda>(a, va). (subparam k a, encoded_value va)) sub"
| "flat_entry (k, v) = [(k, encoded_value v)]"

definition flat_form :: "pydict \<Rightarrow> pydict" where
  "flat_form ps = concat (map flat_entry ps)"

section \<open>Objects shared with the caller\<close>

text \<open>
  A value of the parameters is either a plain value or a reference to a dictionary object
  that the caller may hold as well; the store gives the contents of these objects. The
  dictionary \<^verbatim>\<open>params\<close> itself is passed along as before. The encoding of lines 90 to 100
  is written again over references: \<^verbatim>\<open>isinstance\<close> and \<^verbatim>\<open>.items()\<close> read the object a
  reference points to; the assignments, \<^verbatim>\<open>del\<close> and \<^verbatim>\<open>update\<close> write to \<^verbatim>\<open>params\<close>. Every
  function returns the store next to its result.
\<close>

datatype arg = Val pyval | Ref nat

type_synonym store = "nat \<Rightarrow> pydict"
type_synonym pyargs = "(string \<times> arg) list"

fun value_of :: "store \<Rightarrow> arg \<Rightarrow> pyval" where
  "value_of st (Val v) = v"
| "value_of st (Ref a) = PDict (st a)"

definition values_of :: "store \<Rightarrow> pyargs \<Rightarrow> pydict" where
  "values_of st ps = map (\<lambda>(k, v). (k, value_of st v)) ps"

definition dict_keys_st :: "store \<Rightarrow> pyargs \<Rightarrow> string list" where
  "dict_keys_st st ps = map fst (filter (\<lambda>(k, v). is_dict (value_of st v)) ps)"

definition flatten_key_st :: "string \<Rightarrow> pydict \<Rightarrow> pyargs \<Rightarrow> pyargs" where
  "flatten_key_st key sub ps =
     AList.delete key (fold (\<lambda>(subkey, v). AList.update (subparam key subkey) (Val v)) sub ps)"

fun flatten_keys_st :: "string list \<Rightarrow> pyargs \<Rightarrow> store \<Rightarrow> (pyargs \<times> store) \<times> exn option" where
  "flatten_keys_st [] ps st = ((ps, st), None)"
| "flatten_keys_st (key # keys) ps st =
     (case map_of ps key of
        None \<Rightarrow> ((ps, st), Some (KeyError key))
      | Some v \<Rightarrow>
          (case value_of st v of
             PDict sub \<Rightarrow> flatten_keys_st keys (flatten_key_st key sub ps) st
           | _ \<Rightarrow> ((ps, st), Some AttributeError)))"

definition bool_updates_st :: "store \<Rightarrow> pyargs \<Rightarrow> pyargs" where
  "bool_updates_st st ps =
     map (\<lambda>(k, v). (k, Val (PStr (lower (py_str (value_of st v))))))
       (filter (\<lambda>(k, v). is_bool (value_of st v)) ps)"

definition bools_to_strings_st :: "pyargs \<Rightarrow> store \<Rightarrow> pyargs \<times> store" where
  "bools_to_strings_st ps st = (fold (\<lambda>(k, v). AList.update k v) (bool_updates_st st ps) ps, st)"

definition encode_params_st :: "pyargs \<Rightarrow> store \<Rightarrow> (pyargs \<times> store) \<times> exn option" where
  "encode_params_st ps st =
     (case flatten_keys_st (dict_keys_st st ps) ps st of
        ((ps', st'), Some e) \<Rightarrow> ((ps', st'), Some e)
      | ((ps', st'), None) \<Rightarrow> (bools_to_strings_st ps' st', None))"

definition Client_req_st ::
  "(request \<Rightarrow> response) \<Rightarrow> client \<Rightarrow> string \<Rightarrow> string \<Rightarrow> pyargs option \<Rightarrow> store
     \<Rightarrow> (pyargs \<times> store) \<times> (exn + pyval)" where
  \<open>Client_req_st session self method page params0 st =
     (case encode_params_st (case params0 of None \<Rightarrow> [] | Some p \<Rightarrow> p) st of
        ((params', st'), Some e) \<Rightarrow> ((params', st'), Inl e)
      | ((params', st'), None) \<Rightarrow>
         ((params', st'),
          let r = session (make_request self method page (values_of st' params'));
              body = read_body r
          in if status r \<noteq> 200 then
               (case StripeError_init (status r) body of
                  Inl e \<Rightarrow> Inl e
                | Inr err \<Rightarrow> Inl (StripeError err))
             else if upper method = ''DELETE'' then
               (case body of
                  PDict b \<Rightarrow>
                    if \<not> truthy (dict_get b ''deleted'' (PBool False)) then
                      Inl (DeletionError
                             (format ''Failed to delete %s'' [py_str (dict_get b ''id'' PNone)]))
                    else Inr PNone
                | _ \<Rightarrow> Inl AttributeError)
             else
               (case py_in ''object'' body of
                  Inl e \<Rightarrow> Inl e
                | Inr False \<Rightarrow>
                    Inl (ParseError
                           (format ''Stripe response missing "object": %s'' [py_str body]))
                | Inr True \<Rightarrow> convert_json_response body)))\<close>

text \<open>
  The endpoint methods. \<^verbatim>\<open>**kwds\<close> is a dictionary made by the call, and the other methods
  build \<^verbatim>\<open>params\<close> themselves or pass none; the values are the caller's objects.
\<close>

definition create_charge_st ::
  "(request \<Rightarrow> response) \<Rightarrow> client \<Rightarrow> arg \<Rightarrow> arg \<Rightarrow> pyargs \<Rightarrow> store
     \<Rightarrow> store \<times> (exn + pyval)" where
  "create_charge_st session self amount currency kwds st =
     (let params = fold (\<lambda>(k, v). AList.update k v) kwds
                     [(''amount'', amount), (''currency'', currency)];
          ((params', st'), out) =
            Client_req_st session self ''post'' ''/charges'' (Some params) st
      in (st', out))"

definition retrieve_charge_st ::
  "(request \<Rightarrow> response) \<Rightarrow> client \<Rightarrow> arg \<Rightarrow> store
     \<Rightarrow> store \<times> (exn + pyval)" where
  "retrieve_charge_st session self charge_id st =
     (let ((params', st'), out) =
            Client_req_st session self ''get''
              (format ''/charges/%s'' [py_str (value_of st charge_id)]) None st
      in (st', out))"

definition update_charge_st ::
  "(request \<Rightarrow> response) \<Rightarrow> client \<Rightarrow> arg \<Rightarrow> pyargs \<Rightarrow> store
     \<Rightarrow> store \<times> (exn + pyval)" where
  "update_charge_st session self charge_id kwds st =
     (let ((params', st'), out) =
            Client_req_st session self ''post''
              (format ''/charges/%s'' [py_str (value_of st charge_id)]) (Some kwds) st
      in (st', out))"

definition capture_charge_st ::
  "(request \<Rightarrow> response) \<Rightarrow> client \<Rightarrow> arg \<Rightarrow> pyargs \<Rightarrow> store
     \<Rightarrow> store \<times> (exn + pyval)" where
  "capture_charge_st session self charge_id kwds st =
     (let ((params', st'), out) =
            Client_req_st session self ''post''
              (format ''/charges/%s/capture'' [py_str (value_of st charge_id)]) (Some kwds) st
      in (st', out))"

definition list_charges_st ::
  "(request \<Rightarrow> response) \<Rightarrow> client \<Rightarrow> pyargs \<Rightarrow> store
     \<Rightarrow> store \<times> (exn + pyval)" where
  "list_charges_st session self kwds st =
     (let ((params', st'), out) =
            Client_req_st session self ''get'' ''/charges'' (Some kwds) st
      in (st', out))"

definition create_customer_st ::
  "(request \<Rightarrow> response) \<Rightarrow> client \<Rightarrow> pyargs \<Rightarrow> store
     \<Rightarrow> store \<times> (exn + pyval)" where
  "create_customer_st session self kwds st =
     (let ((params', st'), out) =
            Client_req_st session self ''post'' ''/customers'' (Some kwds) st
      in (st', out))"

definition retrieve_customer_st ::
  "(request \<Rightarrow> response) \<Rightarrow> client \<Rightarrow> arg \<Rightarrow> store
     \<Rightarrow> store \<times> (exn + pyval)" where
  "retrieve_customer_st session self customer_id st =
     (let ((params', st'), out) =
            Client_req_st session self ''get''
              (format ''/customers/%s'' [py_str (value_of st customer_id)]) None st
      in (st', out))"

definition update_customer_st ::
  "(request \<Rightarrow> response) \<Rightarrow> client \<Rightarrow> arg \<Rightarrow> pyargs \<Rightarrow> store
     \<Rightarrow> store \<times> (exn + pyval)" where
  "update_customer_st session self customer_id kwds st =
     (let ((params', st'), out) =
            Client_req_st session self ''post''
              (format ''/customers/%s'' [py_str (value_of st customer_id)]) (Some kwds) st
      in (st', out))"

definition delete_customer_st ::
  "(request \<Rightarrow> response) \<Rightarrow> client \<Rightarrow> arg \<Rightarrow> store
     \<Rightarrow> store \<times> (exn + pyval)" where
  "delete_customer_st session self customer_id st =
     (let ((params', st'), out) =
            Client_req_st session self ''delete''
              (format ''/customers/%s'' [py_str (value_of st customer_id)]) None st
      in (st', case out of Inl e \<Rightarrow> Inl e | Inr _ \<Rightarrow> Inr PNone))"

definition list_customers_st ::
  "(request \<Rightarrow> response) \<Rightarrow> client \<Rightarrow> pyargs \<Rightarrow> store
     \<Rightarrow> store \<times> (exn + pyval)" where
  "list_customers_st session self kwds st =
     (let ((params', st'), out) =
            Client_req_st session self ''get'' ''/customers'' (Some kwds) st
      in (st', out))"

definition create_card_st ::
  "(request \<Rightarrow> response) \<Rightarrow> client \<Rightarrow> arg \<Rightarrow> arg \<Rightarrow> arg \<Rightarrow> store
     \<Rightarrow> store \<times> (exn + pyval)" where
  "create_card_st session self customer_id source metadata st =
     (let params = [(''source'', source)];
          params = (if metadata \<noteq> Val PNone then AList.update ''metadata'' metadata params
                    else params);
          ((params', st'), out) =
            Client_req_st session self ''post''
              (format ''/customers/%s/sources'' [py_str (value_of st customer_id)])
              (Some params) st
      in (st', out))"

definition delete_card_st ::
  "(request \<Rightarrow> response) \<Rightarrow> client \<Rightarrow> arg \<Rightarrow> arg \<Rightarrow> store
     \<Rightarrow> store \<times> (exn + pyval)" where
  "delete_card_st session self customer_id source_id st =
     (let ((params', st'), out) =
            Client_req_st session self ''delete''
              (format ''/customers/%s/sources/%s'' [py_str (value_of st customer_id),
                 py_str (value_of st source_id)]) None st
      in (st', case out of Inl e \<Rightarrow> Inl e | Inr _ \<Rightarrow> Inr PNone))"

definition update_card_st ::
  "(request \<Rightarrow> response) \<Rightarrow> client \<Rightarrow> arg \<Rightarrow> arg \<Rightarrow> pyargs \<Rightarrow> store
     \<Rightarrow> store \<times> (exn + pyval)" where
  "update_card_st session self customer_id source_id kwds st =
     (let ((params', st'), out) =
            Client_req_st session self ''post''
              (format ''/customers/%s/sources/%s'' [py_str (value_of st customer_id),
                 py_str (value_of st source_id)]) (Some kwds) st
      in (st', out))"

definition create_refund_st ::
  "(request \<Rightarrow> response) \<Rightarrow> client \<Rightarrow> arg \<Rightarrow> pyargs \<Rightarrow> store
     \<Rightarrow> store \<times> (exn + pyval)" where
  "create_refund_st session self charge_id kwds st =
     (let params = [(''charge'', charge_id)];
          params = fold (\<lambda>(k, v). AList.update k v) kwds params;
          ((params', st'), out) =
            Client_req_st session self ''post'' ''/refunds'' (Some params) st
      in (st', out))"

definition retrieve_refund_st ::
  "(request \<Rightarrow> response) \<Rightarrow> client \<Rightarrow> arg \<Rightarrow> store
     \<Rightarrow> store \<times> (exn + pyval)" where
  "retrieve_refund_st session self refund_id st =
     (let ((params', st'), out) =
            Client_req_st session self ''get''
              (format ''/refunds/%s'' [py_str (value_of st refund_id)]) None st
      in (st', out))"

definition update_refund_st ::
  "(request \<Rightarrow> response) \<Rightarrow> client \<Rightarrow> arg \<Rightarrow> arg \<Rightarrow> store
     \<Rightarrow> store \<times> (exn + pyval)" where
  "update_refund_st session self refund_id metadata st =
     (let params = [(''metadata'', metadata)];
          ((params', st'), out) =
            Client_req_st session self ''post''
              (format ''/refunds/%s'' [py_str (value_of st refund_id)]) (Some params) st
      in (st', out))"

definition list_refunds_st ::
  "(request \<Rightarrow> response) \<Rightarrow> client \<Rightarrow> pyargs \<Rightarrow> store
     \<Rightarrow> store \<times> (exn + pyval)" where
  "list_refunds_st session self kwds st =
     (let ((params', st'), out) =
            Client_req_st session self ''get'' ''/refunds'' (Some kwds) st
      in (st', out))"

definition create_source_st ::
  "(request \<Rightarrow> response) \<Rightarrow> client \<Rightarrow> pyargs \<Rightarrow> store
     \<Rightarrow> store \<times> (exn + pyval)" where
  "create_source_st session self kwds st =
     (let ((params', st'), out) =
            Client_req_st session self ''post'' ''/sources'' (Some kwds) st
      in (st', out))"

definition retrieve_source_st ::
  "(request \<Rightarrow> response) \<Rightarrow> client \<Rightarrow> arg \<Rightarrow> store
     \<Rightarrow> store \<times> (exn + pyval)" where
  "retrieve_source_st session self source_id st =
     (let ((params', st'), out) =
            Client_req_st session self ''get''
              (format ''/sources/%s'' [py_str (value_of st source_id)]) None st
      in (st', out))"

section \<open>Basic facts\<close>

lemma format_no_args: "format cs [] = cs"
  by (cases cs rule: list.exhaust [case_product list.exhaust]) auto

lemma format_one: "format (CHR ''%'' # CHR ''s'' # cs) [a] = a @ cs"
  by (cases cs; cases "tl cs") auto

lemma subparam_eq: "subparam key subkey = key @ ''['' @ subkey @ '']''"
  by (simp add: subparam_def)

lemma encode_params_Nil: "encode_params [] = ([], None)"
  by (simp add: encode_params_def dict_keys_def bools_to_strings_def bool_updates_def)

lemma upper_delete: "upper ''delete'' = ''DELETE''"
  by (simp add: upper_def upper_char_def)

section \<open>The error summary\<close>

text \<open>
  The summary is assembled by \<^verbatim>\<open>addstr\<close>, which looks its key up among the attributes
  of the error. No attribute is called \<^verbatim>\<open>decline\<close>, so that part is always empty.
\<close>

lemma addstr_decline: "addstr self ''decline'' fmt = ''''"
  by (simp add: addstr_def getattr_def)

text \<open>
  C1. The summary of the error should show a non-empty \<^verbatim>\<open>decline_code\<close> under the label
  \<^verbatim>\<open>decline\<close>. For a 402 response whose error payload has only
  \<^verbatim>\<open>decline_code = insufficient_funds\<close> the field is recorded on the error, but the
  summary is just \<^verbatim>\<open>402:\<close> and does not contain the decline code.
\<close>

theorem StripeError_summary_omits_decline_code:
  "case StripeError_init 402
          (PDict [(''error'', PDict [(''decline_code'', PStr ''insufficient_funds'')])]) of
     Inl x \<Rightarrow> False
   | Inr e \<Rightarrow> decline_code e = PStr ''insufficient_funds'' \<and> args e = ''402:'' \<and>
       \<not> sublist '' decline: insufficient_funds'' (args e)"
  by code_simp

section \<open>Classifying the response\<close>

text \<open>
  C4. A response that is not 200 should always end in a \<^verbatim>\<open>StripeError\<close>. When the JSON
  body of a 500 response has a string under \<^verbatim>\<open>error\<close>, the constructor of the error
  calls \<^verbatim>\<open>get\<close> on that string and the request ends in an \<^verbatim>\<open>AttributeError\<close>.
\<close>

theorem Client_req_error_entry_not_mapping:
  "snd (Client_req
     (\<lambda>rq. \<lparr>status = 500, content_type = Some ''application/json'',
             json = PDict [(''error'', PStr ''boom'')], raw = ''''\<rparr>)
     (Client_init ''secret_key'' DEFAULT_VERSION) ''get'' ''/charges'' None) = Inl AttributeError"
  by code_simp

text \<open>
  C5. A DELETE answered with status 200 and a dictionary body returns nothing when
  \<^verbatim>\<open>deleted\<close> is true, and raises a \<^verbatim>\<open>DeletionError\<close> naming the body's \<^verbatim>\<open>id\<close>
  (\<^verbatim>\<open>None\<close> when there is no \<^verbatim>\<open>id\<close>) when \<^verbatim>\<open>deleted\<close> is false or missing.
\<close>

theorem Client_req_delete:
  assumes "encode_params (case params0 of None \<Rightarrow> [] | Some p \<Rightarrow> p) = (ps, None)"
    and "r = session (make_request self method page ps)"
    and "status r = 200"
    and "upper method = ''DELETE''"
    and "read_body r = PDict b"
  shows "(map_of b ''deleted'' = Some (PBool True) \<longrightarrow>
            snd (Client_req session self method page params0) = Inr PNone) \<and>
         (map_of b ''deleted'' = Some (PBool False) \<or> map_of b ''deleted'' = None \<longrightarrow>
            snd (Client_req session self method page params0) =
              Inl (DeletionError (''Failed to delete '' @ py_str (dict_get b ''id'' PNone))))"
  using assms by (auto simp: Client_req_def Let_def dict_get_def)

theorem Client_req_delete_witness:
  "snd (Client_req
          (\<lambda>rq. \<lparr>status = 200, content_type = Some ''application/json'',
                  json = PDict [(''deleted'', PBool True), (''id'', PStr ''cus_X'')], raw = ''''\<rparr>)
          (Client_init ''secret_key'' DEFAULT_VERSION) ''delete'' ''/customers/cus_X'' None)
     = Inr PNone \<and>
   snd (Client_req
          (\<lambda>rq. \<lparr>status = 200, content_type = Some ''application/json'',
                  json = PDict [(''deleted'', PBool False), (''id'', PStr ''cus_X'')], raw = ''''\<rparr>)
          (Client_init ''secret_key'' DEFAULT_VERSION) ''delete'' ''/customers/cus_X'' None)
     = Inl (DeletionError ''Failed to delete cus_X'') \<and>
   snd (Client_req
          (\<lambda>rq. \<lparr>status = 200, content_type = Some ''application/json'',
                  json = PDict [], raw = ''''\<rparr>)
          (Client_init ''secret_key'' DEFAULT_VERSION) ''delete'' ''/customers/cus_X'' None)
     = Inl (DeletionError ''Failed to delete None'')"
proof -
  let ?self = "Client_init ''secret_key'' DEFAULT_VERSION"
  let ?page = "''/customers/cus_X''"
  have enc: "encode_params (case None of None \<Rightarrow> [] | Some p \<Rightarrow> p) = ([], None)"
    by (simp add: encode_params_Nil)
  have body: "read_body \<lparr>status = 200, content_type = Some ''application/json'',
                          json = j, raw = ''''\<rparr> = j" for j
    by (simp add: read_body_def startswith_def)
  note del = Client_req_delete [OF enc refl _ upper_delete, of _ ?self ?page]
  show ?thesis
    using del [of "\<lambda>rq. \<lparr>status = 200, content_type = Some ''application/json'',
                    json = PDict [(''deleted'', PBool True), (''id'', PStr ''cus_X'')], raw = ''''\<rparr>"
                  "[(''deleted'', PBool True), (''id'', PStr ''cus_X'')]"]
          del [of "\<lambda>rq. \<lparr>status = 200, content_type = Some ''application/json'',
                    json = PDict [(''deleted'', PBool False), (''id'', PStr ''cus_X'')], raw = ''''\<rparr>"
                  "[(''deleted'', PBool False), (''id'', PStr ''cus_X'')]"]
          del [of "\<lambda>rq. \<lparr>status = 200, content_type = Some ''application/json'',
                    json = PDict [], raw = ''''\<rparr>" "[]"]
    by (simp add: body dict_get_def py_str_def)
qed

text \<open>
  C6. A 200 answer to a request other than DELETE whose body is not a dictionary with an
  \<^verbatim>\<open>object\<close> key should end in a \<^verbatim>\<open>ParseError\<close>. When the answer is not JSON the
  body is a bytes object, the membership test on it fails and the request ends in a
  \<^verbatim>\<open>TypeError\<close>.
\<close>

theorem Client_req_bytes_body_TypeError:
  "snd (Client_req
     (\<lambda>rq. \<lparr>status = 200, content_type = Some ''text/html'',
             json = PNone, raw = ''<html>''\<rparr>)
     (Client_init ''secret_key'' DEFAULT_VERSION) ''get'' ''/charges'' None) = Inl TypeError"
  by code_simp

section \<open>Response normalization: properties\<close>

lemma collect_Inr_D: "collect f xs = Inr ys \<Longrightarrow> list_all2 (\<lambda>x y. f x = Inr y) xs ys"
  by (induction xs arbitrary: ys) (auto split: sum.splits)

lemma collect_Inr_I: "list_all2 (\<lambda>x y. f x = Inr y) xs ys \<Longrightarrow> collect f xs = Inr ys"
  by (induction rule: list_all2_induct) auto

lemma collect_Inr_iff: "collect f xs = Inr ys \<longleftrightarrow> list_all2 (\<lambda>x y. f x = Inr y) xs ys"
  using collect_Inr_D collect_Inr_I by blast

lemma collect_Inl: "collect f xs = Inl e \<Longrightarrow> \<exists>x \<in> set xs. f x = Inl e"
  by (induction xs) (auto split: sum.splits)

lemma collect_fixed: "(\<And>x. x \<in> set xs \<Longrightarrow> f x = Inr x) \<Longrightarrow> collect f xs = Inr xs"
  by (induction xs) auto

lemma collect_results_fixed:
  assumes "collect f xs = Inr ys" and "\<And>x y. x \<in> set xs \<Longrightarrow> f x = Inr y \<Longrightarrow> f y = Inr y"
  shows "collect f ys = Inr ys"
proof (rule collect_fixed)
  fix y assume "y \<in> set ys"
  then obtain i where i: "i < length ys" "ys ! i = y"
    by (auto simp: in_set_conv_nth)
  from assms(1) have all2: "list_all2 (\<lambda>x y. f x = Inr y) xs ys"
    by (rule collect_Inr_D)
  with i have "xs ! i \<in> set xs" and "f (xs ! i) = Inr y"
    by (auto simp: list_all2_conv_all_nth)
  then show "f y = Inr y" by (rule assms(2))
qed

lemma convert_fixed: "convert_json_response v = Inr w \<Longrightarrow> convert_json_response w = Inr w"
proof (induction v arbitrary: w rule: convert_json_response.induct)
  case (1 xs)
  from "1.prems" obtain ys where ys: "collect convert_json_response xs = Inr ys" "w = PList ys"
    by (auto split: sum.splits)
  have "collect convert_json_response ys = Inr ys"
    using ys(1) "1.IH" by (rule collect_results_fixed)
  with ys show ?case by simp
next
  case (2 d)
  show ?case
  proof (cases "dict_get d ''object'' (PStr '''') = PStr ''list''")
    case True
    with "2.prems" obtain dv items ys where
      dv: "map_of d ''data'' = Some dv" and items: "py_iter dv = Inr items"
      and ys: "collect convert_json_response items = Inr ys" "w = PList ys"
      by (auto split: option.splits sum.splits)
    have "collect convert_json_response ys = Inr ys"
      using ys(1) "2.IH" [OF True dv items] by (rule collect_results_fixed)
    with ys show ?thesis by simp
  next
    case False
    with "2.prems" show ?thesis by auto
  qed
qed auto

lemma convert_envelope_free: "envelope_free v \<Longrightarrow> convert_json_response v = Inr v"
proof (induction v rule: convert_json_response.induct)
  case (1 xs)
  then have "collect convert_json_response xs = Inr xs"
    by (intro collect_fixed) auto
  then show ?case by simp
qed auto

lemma convert_no_KeyError:
  "lists_have_data v \<Longrightarrow> convert_json_response v \<noteq> Inl (KeyError k)"
proof (induction v rule: convert_json_response.induct)
  case (1 xs)
  then show ?case by (auto split: sum.splits dest!: collect_Inl)
next
  case (2 d)
  show ?case
  proof (cases "dict_get d ''object'' (PStr '''') = PStr ''list''")
    case True
    with "2.prems" obtain dv where dv: "map_of d ''data'' = Some dv" by auto
    then have "dv \<in> snd ` set d" by (force dest: map_of_SomeD)
    with "2.prems" have hd: "lists_have_data dv" by auto
    show ?thesis
    proof (cases "py_iter dv")
      case (Inl e)
      then have "e = TypeError" by (cases dv) auto
      with True dv Inl show ?thesis by simp
    next
      case (Inr items)
      have "\<And>x. x \<in> set items \<Longrightarrow> lists_have_data x"
        using Inr hd by (cases dv) auto
      then have "\<And>x. x \<in> set items \<Longrightarrow> convert_json_response x \<noteq> Inl (KeyError k)"
        using "2.IH" [OF True dv Inr] by blast
      then have "collect convert_json_response items \<noteq> Inl (KeyError k)"
        by (auto dest!: collect_Inl)
      with True dv Inr show ?thesis by (auto split: sum.splits)
    qed
  next
    case False
    then show ?thesis by simp
  qed
qed auto

lemma convert_errors:
  "convert_json_response v = Inl e \<Longrightarrow> e = TypeError \<or> e = KeyError ''data''"
proof (induction v rule: convert_json_response.induct)
  case (1 xs)
  then show ?case by (auto split: sum.splits dest!: collect_Inl)
next
  case (2 d)
  show ?case
  proof (cases "dict_get d ''object'' (PStr '''') = PStr ''list''")
    case True
    show ?thesis
    proof (cases "map_of d ''data''")
      case None
      with True "2.prems" show ?thesis by simp
    next
      case (Some dv)
      show ?thesis
      proof (cases "py_iter dv")
        case (Inl e')
        then have "e' = TypeError" by (cases dv) auto
        with True Some Inl "2.prems" show ?thesis by simp
      next
        case (Inr items)
        with True Some "2.prems" have "collect convert_json_response items = Inl e"
          by (auto split: sum.splits)
        then obtain x where "x \<in> set items" "convert_json_response x = Inl e"
          by (auto dest!: collect_Inl)
        then show ?thesis using "2.IH" [OF True Some Inr] by blast
      qed
    qed
  next
    case False
    with "2.prems" show ?thesis by simp
  qed
qed auto

text \<open>
  C7. \<^verbatim>\<open>convert_json_response\<close> by cases: a list gives the list of its normalized elements
  (and returns exactly when every element does); a list envelope whose \<^verbatim>\<open>data\<close> entry is
  a list gives what normalizing that list gives, whatever else the envelope holds; a value
  that is neither a list nor a list envelope is returned unchanged. In particular an
  envelope around two envelope-free values gives the list of the two, and two envelopes in
  a list are unwrapped one by one.
\<close>

theorem convert_json_response_cases:
  "(convert_json_response (PList xs) = Inr r \<longleftrightarrow>
      (\<exists>ys. r = PList ys \<and> list_all2 (\<lambda>x y. convert_json_response x = Inr y) xs ys)) \<and>
   (is_envelope (PDict d) \<and> map_of d ''data'' = Some (PList xs) \<longrightarrow>
      convert_json_response (PDict d) = convert_json_response (PList xs)) \<and>
   (\<not> is_list v \<and> \<not> is_envelope v \<longrightarrow> convert_json_response v = Inr v) \<and>
   (envelope_free x \<and> envelope_free y \<longrightarrow>
      convert_json_response (PDict [(''object'', PStr ''list''), (''data'', PList [x, y])])
        = Inr (PList [x, y])) \<and>
   ((\<forall>a \<in> set as. envelope_free a) \<and> (\<forall>b \<in> set bs. envelope_free b) \<longrightarrow>
      convert_json_response
        (PList [PDict [(''object'', PStr ''list''), (''data'', PList as)],
                PDict [(''object'', PStr ''list''), (''data'', PList bs)]])
        = Inr (PList [PList as, PList bs]))"
proof (intro conjI impI)
  show "convert_json_response (PList xs) = Inr r \<longleftrightarrow>
      (\<exists>ys. r = PList ys \<and> list_all2 (\<lambda>x y. convert_json_response x = Inr y) xs ys)"
    unfolding collect_Inr_iff [symmetric] by (auto split: sum.splits)
next
  assume "is_envelope (PDict d) \<and> map_of d ''data'' = Some (PList xs)"
  then show "convert_json_response (PDict d) = convert_json_response (PList xs)"
    by simp
next
  assume "\<not> is_list v \<and> \<not> is_envelope v"
  then show "convert_json_response v = Inr v"
    by (cases v) auto
next
  assume "envelope_free x \<and> envelope_free y"
  then show "convert_json_response (PDict [(''object'', PStr ''list''), (''data'', PList [x, y])])
        = Inr (PList [x, y])"
    by (simp add: dict_get_def convert_envelope_free)
next
  assume "(\<forall>a \<in> set as. envelope_free a) \<and> (\<forall>b \<in> set bs. envelope_free b)"
  then have "collect convert_json_response as = Inr as"
    and "collect convert_json_response bs = Inr bs"
    by (auto intro!: collect_fixed convert_envelope_free)
  then show "convert_json_response
        (PList [PDict [(''object'', PStr ''list''), (''data'', PList as)],
                PDict [(''object'', PStr ''list''), (''data'', PList bs)]])
        = Inr (PList [PList as, PList bs])"
    by (simp add: dict_get_def)
qed

theorem convert_json_response_cases_witness:
  "convert_json_response
     (PDict [(''object'', PStr ''list''), (''has_more'', PBool False),
             (''data'', PList [PInt 1, PList [PInt 2]])])
     = convert_json_response (PList [PInt 1, PList [PInt 2]]) \<and>
   convert_json_response (PDict [(''object'', PStr ''charge'')])
     = Inr (PDict [(''object'', PStr ''charge'')]) \<and>
   convert_json_response
     (PDict [(''object'', PStr ''list''),
             (''data'', PList [PDict [(''object'', PStr ''charge'')], PStr ''x''])])
     = Inr (PList [PDict [(''object'', PStr ''charge'')], PStr ''x'']) \<and>
   convert_json_response
     (PList [PDict [(''object'', PStr ''list''), (''data'', PList [PInt 1])],
             PDict [(''object'', PStr ''list''), (''data'', PList [PInt 2, PInt 3])]])
     = Inr (PList [PList [PInt 1], PList [PInt 2, PInt 3]])"
  using convert_json_response_cases
          [of _ _ "[(''object'', PStr ''list''), (''has_more'', PBool False),
                 (''data'', PList [PInt 1, PList [PInt 2]])]"
              "PDict [(''object'', PStr ''charge'')]"
              "PDict [(''object'', PStr ''charge'')]" "PStr ''x''"
              "[PInt 1]" "[PInt 2, PInt 3]"]
  by (simp add: dict_get_def)

text \<open>
  The case split does not cover a list envelope without \<^verbatim>\<open>data\<close>: there the lookup
  raises \<^verbatim>\<open>KeyError\<close> and no list is returned.
\<close>

theorem convert_json_response_list_without_data:
  "\<not> (\<exists>ys. convert_json_response (PDict [(''object'', PStr ''list'')]) = Inr (PList ys)) \<and>
   convert_json_response (PDict [(''object'', PStr ''list'')]) = Inl (KeyError ''data'')"
  by (simp add: dict_get_def)

text \<open>
  C8. Normalization is idempotent: a dictionary whose \<^verbatim>\<open>object\<close> entry is present and is
  not \<^verbatim>\<open>list\<close> is returned unchanged, and normalizing a second time changes nothing
  (if the first pass raises, so does the composition, with the same exception).
\<close>

theorem convert_json_response_idempotent:
  "(map_of d ''object'' = Some t \<and> t \<noteq> PStr ''list'' \<longrightarrow>
      convert_json_response (PDict d) = Inr (PDict d)) \<and>
   (case convert_json_response v of Inl e \<Rightarrow> Inl e | Inr w \<Rightarrow> convert_json_response w)
     = convert_json_response v"
  by (auto simp: dict_get_def split: sum.splits dest: convert_fixed)

theorem convert_json_response_idempotent_witness:
  "convert_json_response (PDict [(''object'', PStr ''charge''), (''id'', PStr ''ch_1'')])
     = Inr (PDict [(''object'', PStr ''charge''), (''id'', PStr ''ch_1'')]) \<and>
   (case convert_json_response
           (PDict [(''object'', PStr ''list''),
                   (''data'', PList [PDict [(''object'', PStr ''charge'')]])]) of
      Inl e \<Rightarrow> Inl e
    | Inr w \<Rightarrow> convert_json_response w)
     = Inr (PList [PDict [(''object'', PStr ''charge'')]])"
  using convert_json_response_idempotent
          [of "[(''object'', PStr ''charge''), (''id'', PStr ''ch_1'')]" "PStr ''charge''"
              "PDict [(''object'', PStr ''list''),
                      (''data'', PList [PDict [(''object'', PStr ''charge'')]])]"]
  by (simp add: dict_get_def)

text \<open>
  C10. The \<^verbatim>\<open>data\<close> lookup of \<^verbatim>\<open>convert_json_response\<close> is unguarded: a list envelope
  without \<^verbatim>\<open>data\<close> raises \<^verbatim>\<open>KeyError\<close>. When every list envelope in the value has a
  \<^verbatim>\<open>data\<close> entry the lookup never fails; the call then returns a value, unless a
  \<^verbatim>\<open>data\<close> entry cannot be iterated.
\<close>

theorem convert_json_response_data_lookup:
  "(is_envelope (PDict d) \<and> map_of d ''data'' = None \<longrightarrow>
      convert_json_response (PDict d) = Inl (KeyError ''data'')) \<and>
   (lists_have_data v \<longrightarrow>
      (\<forall>k. convert_json_response v \<noteq> Inl (KeyError k)) \<and>
      ((\<exists>w. convert_json_response v = Inr w) \<or> convert_json_response v = Inl TypeError))"
proof -
  have "(\<exists>w. convert_json_response v = Inr w) \<or> convert_json_response v = Inl TypeError"
    if "lists_have_data v"
  proof (cases "convert_json_response v")
    case (Inl e)
    with convert_errors [OF Inl] convert_no_KeyError [OF that, of "''data''"]
    show ?thesis by auto
  next
    case (Inr w)
    then show ?thesis by simp
  qed
  then show ?thesis by (auto simp: convert_no_KeyError)
qed

theorem convert_json_response_data_lookup_witness:
  "convert_json_response (PDict [(''object'', PStr ''list''), (''url'', PStr ''/v1/charges'')])
     = Inl (KeyError ''data'') \<and>
   convert_json_response (PDict [(''object'', PStr ''list''), (''data'', PList [PInt 1])])
     \<noteq> Inl (KeyError ''data'')"
  using convert_json_response_data_lookup
          [of "[(''object'', PStr ''list''), (''url'', PStr ''/v1/charges'')]"
              "PDict [(''object'', PStr ''list''), (''data'', PList [PInt 1])]"]
  by (simp add: dict_get_def)

section \<open>Parameter encoding: properties\<close>

lemma subparam_inj: "subparam key a = subparam key b \<longleftrightarrow> a = b"
  by (simp add: subparam_eq)

lemma subparam_neq_key: "subparam key a \<noteq> key"
proof
  assume "subparam key a = key"
  then have "length (subparam key a) = length key" by simp
  then show False by (simp add: subparam_eq)
qed

lemma encoded_value_bool:
  "encoded_value (PBool b) = PStr (if b then ''true'' else ''false'')"
  by (simp add: encoded_value_def py_str_def lower_def lower_char_def)

lemma encoded_value_other: "\<not> is_bool v \<Longrightarrow> encoded_value v = v"
  by (simp add: encoded_value_def)

lemma encoded_value_not_bool: "\<not> is_bool (encoded_value v)"
  by (cases v) (simp_all add: encoded_value_def)

lemma encoded_value_is_dict: "is_dict (encoded_value v) = is_dict v"
  by (cases v) (simp_all add: encoded_value_def)

subsection \<open>fold of updates\<close>

lemma map_of_fold_update_other:
  "x \<notin> f ` fst ` set kvs \<Longrightarrow>
     map_of (fold (\<lambda>(a, v). AList.update (f a) v) kvs ps) x = map_of ps x"
  by (induction kvs arbitrary: ps) (auto simp: update_conv')

lemma map_of_fold_update_in:
  "inj f \<Longrightarrow> distinct (map fst kvs) \<Longrightarrow> (a, va) \<in> set kvs \<Longrightarrow>
     map_of (fold (\<lambda>(a, v). AList.update (f a) v) kvs ps) (f a) = Some va"
proof (induction kvs arbitrary: ps)
  case Nil
  then show ?case by simp
next
  case (Cons kv kvs)
  obtain a0 v0 where kv: "kv = (a0, v0)" by (cases kv)
  show ?case
  proof (cases "(a, va) \<in> set kvs")
    case True
    with Cons show ?thesis by (simp add: kv)
  next
    case False
    with Cons.prems kv have eq: "a0 = a" "v0 = va" by auto
    from Cons.prems kv have "a0 \<notin> fst ` set kvs" by auto
    with \<open>inj f\<close> have "f a0 \<notin> f ` fst ` set kvs" by (auto dest: injD)
    then show ?thesis
      using map_of_fold_update_other [of "f a0" f kvs "AList.update (f a0) v0 ps"]
      by (simp add: kv eq update_conv')
  qed
qed

lemma set_fold_update:
  "set (fold (\<lambda>(a, v). AList.update (f a) v) kvs ps) \<subseteq> set ps \<union> (\<lambda>(a, v). (f a, v)) ` set kvs"
proof (induction kvs arbitrary: ps)
  case Nil
  then show ?case by simp
next
  case (Cons kv kvs)
  obtain a0 v0 where kv: "kv = (a0, v0)" by (cases kv)
  have "set (AList.update (f a0) v0 ps) \<subseteq> insert (f a0, v0) (set ps)"
    by (induction ps) auto
  with Cons.IH [of "AList.update (f a0) v0 ps"] show ?case
    by (auto simp: kv)
qed

lemma distinct_fold_update:
  "distinct (map fst ps) \<Longrightarrow> distinct (map fst (fold (\<lambda>(a, v). AList.update (f a) v) kvs ps))"
  by (induction kvs arbitrary: ps) (auto simp: distinct_update)

lemma keys_fold_update:
  "fst ` set (fold (\<lambda>(a, v). AList.update (f a) v) kvs ps) = fst ` set ps \<union> f ` fst ` set kvs"
proof (induction kvs arbitrary: ps)
  case Nil
  then show ?case by simp
next
  case (Cons kv kvs)
  obtain a0 v0 where kv: "kv = (a0, v0)" by (cases kv)
  have "fst ` set (fold (\<lambda>(a, v). AList.update (f a) v) kvs (AList.update (f a0) v0 ps))
          = ({f a0} \<union> fst ` set ps) \<union> f ` fst ` set kvs"
    by (simp only: Cons.IH dom_update)
  then show ?case by (simp add: kv Un_ac)
qed

subsection \<open>flatten_key\<close>

lemma flatten_key_key: "map_of (flatten_key key sub ps) key = None"
  by (simp add: flatten_key_def delete_conv')

lemma flatten_key_other:
  "x \<noteq> key \<Longrightarrow> x \<notin> subparam key ` fst ` set sub \<Longrightarrow>
     map_of (flatten_key key sub ps) x = map_of ps x"
  by (simp add: flatten_key_def delete_conv' map_of_fold_update_other)

lemma flatten_key_sub:
  "distinct (map fst sub) \<Longrightarrow> (a, va) \<in> set sub \<Longrightarrow>
     map_of (flatten_key key sub ps) (subparam key a) = Some va"
  using map_of_fold_update_in [of "subparam key" sub a va ps]
  by (simp add: flatten_key_def delete_conv' subparam_neq_key inj_on_def subparam_inj)

lemma set_flatten_key:
  "set (flatten_key key sub ps) \<subseteq>
     {p \<in> set ps. fst p \<noteq> key} \<union> (\<lambda>(a, v). (subparam key a, v)) ` set sub"
proof -
  have "set (AList.delete key al) = {p \<in> set al. fst p \<noteq> key}" for al :: pydict
    by (induction al) auto
  then show ?thesis
    using set_fold_update [of "subparam key" sub ps] by (auto simp: flatten_key_def)
qed

lemma distinct_flatten_key:
  "distinct (map fst ps) \<Longrightarrow> distinct (map fst (flatten_key key sub ps))"
  by (simp add: flatten_key_def distinct_delete distinct_fold_update)

subsection \<open>flatten_keys when the names do not collide\<close>

lemma flatten_keys_unique:
  assumes "distinct keys"
    and "\<forall>key \<in> set keys. map_of ps key = Some (PDict (D key))"
    and "\<forall>key \<in> set keys. distinct (map fst (D key))"
    and "\<forall>key \<in> set keys. \<forall>a \<in> fst ` set (D key). subparam key a \<notin> set keys"
    and "\<forall>key \<in> set keys. \<forall>key' \<in> set keys. \<forall>a \<in> fst ` set (D key). \<forall>a' \<in> fst ` set (D key').
           subparam key a = subparam key' a' \<longrightarrow> key = key'"
  shows "\<exists>out. flatten_keys keys ps = (out, None) \<and>
           (\<forall>x \<in> set keys. map_of out x = None) \<and>
           (\<forall>key \<in> set keys. \<forall>(a, va) \<in> set (D key). map_of out (subparam key a) = Some va) \<and>
           (\<forall>x. x \<notin> set keys \<and> (\<forall>key \<in> set keys. x \<notin> subparam key ` fst ` set (D key))
                 \<longrightarrow> map_of out x = map_of ps x)"
  using assms
proof (induction keys arbitrary: ps)
  case Nil
  then show ?case by simp
next
  case (Cons key keys)
  let ?ps1 = "flatten_key key (D key) ps"
  have key_notin: "key \<notin> set keys" and dist: "distinct keys"
    using Cons.prems(1) by auto
  have step: "flatten_keys (key # keys) ps = flatten_keys keys ?ps1"
    using Cons.prems(2) by simp
  have same: "map_of ?ps1 k = map_of ps k" if "k \<in> set keys" for k
  proof (rule flatten_key_other)
    show "k \<noteq> key" using that key_notin by auto
    show "k \<notin> subparam key ` fst ` set (D key)"
      using Cons.prems(4) that by auto
  qed
  have "\<exists>out. flatten_keys keys ?ps1 = (out, None) \<and>
           (\<forall>x \<in> set keys. map_of out x = None) \<and>
           (\<forall>key \<in> set keys. \<forall>(a, va) \<in> set (D key). map_of out (subparam key a) = Some va) \<and>
           (\<forall>x. x \<notin> set keys \<and> (\<forall>key \<in> set keys. x \<notin> subparam key ` fst ` set (D key))
                 \<longrightarrow> map_of out x = map_of ?ps1 x)"
  proof (rule Cons.IH [OF dist])
    show "\<forall>k \<in> set keys. map_of ?ps1 k = Some (PDict (D k))"
      using same Cons.prems(2) by simp
    show "\<forall>k \<in> set keys. distinct (map fst (D k))"
      using Cons.prems(3) by simp
    show "\<forall>k \<in> set keys. \<forall>a \<in> fst ` set (D k). subparam k a \<notin> set keys"
      using Cons.prems(4) by simp
    show "\<forall>k \<in> set keys. \<forall>k' \<in> set keys. \<forall>a \<in> fst ` set (D k). \<forall>a' \<in> fst ` set (D k').
           subparam k a = subparam k' a' \<longrightarrow> k = k'"
      using Cons.prems(5) by simp
  qed
  then obtain out where out: "flatten_keys keys ?ps1 = (out, None)"
    and gone: "\<forall>x \<in> set keys. map_of out x = None"
    and made: "\<forall>k \<in> set keys. \<forall>(a, va) \<in> set (D k). map_of out (subparam k a) = Some va"
    and kept: "\<And>x. x \<notin> set keys \<Longrightarrow> (\<forall>k \<in> set keys. x \<notin> subparam k ` fst ` set (D k))
                 \<Longrightarrow> map_of out x = map_of ?ps1 x"
    by blast
  have key_gone: "map_of out key = None"
  proof -
    have "\<forall>k \<in> set keys. key \<notin> subparam k ` fst ` set (D k)"
      using Cons.prems(4) by auto
    then have "map_of out key = map_of ?ps1 key"
      using kept key_notin by blast
    then show ?thesis by (simp add: flatten_key_key)
  qed
  have key_made: "map_of out (subparam key a) = Some va" if "(a, va) \<in> set (D key)" for a va
  proof -
    have a: "a \<in> fst ` set (D key)" using that by force
    have "subparam key a \<notin> set keys"
      using Cons.prems(4) a by auto
    moreover have "\<forall>k \<in> set keys. subparam key a \<notin> subparam k ` fst ` set (D k)"
    proof (intro ballI notI)
      fix k assume k: "k \<in> set keys" and "subparam key a \<in> subparam k ` fst ` set (D k)"
      then obtain a' where "a' \<in> fst ` set (D k)" "subparam key a = subparam k a'" by auto
      with Cons.prems(5) a k have "key = k" by auto
      with k key_notin show False by simp
    qed
    ultimately have "map_of out (subparam key a) = map_of ?ps1 (subparam key a)"
      using kept by blast
    also have "\<dots> = Some va"
      using Cons.prems(3) that by (intro flatten_key_sub) auto
    finally show ?thesis .
  qed
  have rest_kept: "map_of out x = map_of ps x"
    if "x \<notin> set (key # keys)" "\<forall>k \<in> set (key # keys). x \<notin> subparam k ` fst ` set (D k)" for x
  proof -
    have "map_of out x = map_of ?ps1 x" using kept that by auto
    also have "\<dots> = map_of ps x" using that by (intro flatten_key_other) auto
    finally show ?thesis .
  qed
  show ?case
  proof (intro exI conjI)
    show "flatten_keys (key # keys) ps = (out, None)" using step out by simp
    show "\<forall>x \<in> set (key # keys). map_of out x = None" using gone key_gone by auto
    show "\<forall>k \<in> set (key # keys). \<forall>(a, va) \<in> set (D k). map_of out (subparam k a) = Some va"
      using made key_made by auto
    show "\<forall>x. x \<notin> set (key # keys) \<and>
            (\<forall>k \<in> set (key # keys). x \<notin> subparam k ` fst ` set (D k))
            \<longrightarrow> map_of out x = map_of ps x"
      using rest_kept by blast
  qed
qed

subsection \<open>What unique names give\<close>

lemma distinct_concat_same:
  "distinct (concat (map f ps)) \<Longrightarrow> p \<in> set ps \<Longrightarrow> q \<in> set ps \<Longrightarrow>
     x \<in> set (f p) \<Longrightarrow> x \<in> set (f q) \<Longrightarrow> p = q"
  by (induction ps) auto

lemma distinct_concat_each:
  "distinct (concat (map f ps)) \<Longrightarrow> p \<in> set ps \<Longrightarrow> distinct (f p)"
  by (induction ps) auto

lemma unique_keys: "keys_stay_unique ps \<Longrightarrow> distinct (map fst ps)"
  by (simp add: keys_stay_unique_def)

lemma distinct_map_compD: "distinct (map (\<lambda>x. g (f x)) xs) \<Longrightarrow> distinct (map f xs)"
  by (induction xs) auto

lemma unique_sub:
  assumes "keys_stay_unique ps" and "(k, PDict sub) \<in> set ps"
  shows "distinct (map fst sub)"
proof -
  have "distinct (flat_names (k, PDict sub))"
    using assms distinct_concat_each [of flat_names ps "(k, PDict sub)"]
    by (simp add: keys_stay_unique_def)
  then have "distinct (map (\<lambda>p. subparam k (fst p)) sub)"
    by (simp add: case_prod_unfold)
  then show ?thesis by (rule distinct_map_compD)
qed

lemma unique_fresh:
  assumes "keys_stay_unique ps" and "(k, PDict sub) \<in> set ps" and "a \<in> fst ` set sub"
  shows "subparam k a \<notin> fst ` set ps"
proof -
  have "subparam k a \<in> set (flat_names (k, PDict sub))"
    using assms(3) by force
  then have "subparam k a \<in> set (concat (map flat_names ps))"
    using assms(2) by (auto simp del: flat_names.simps)
  then show ?thesis
    using assms(1) by (auto simp: keys_stay_unique_def)
qed

lemma unique_apart:
  assumes "keys_stay_unique ps" and "(k, PDict sub) \<in> set ps" and "(k', PDict sub') \<in> set ps"
    and "a \<in> fst ` set sub" and "a' \<in> fst ` set sub'" and "subparam k a = subparam k' a'"
  shows "k = k'"
proof -
  have 1: "subparam k a \<in> set (flat_names (k, PDict sub))"
    using assms(4) by force
  have 2: "subparam k a \<in> set (flat_names (k', PDict sub'))"
    using assms(5,6) by force
  have "distinct (concat (map flat_names ps))"
    using assms(1) by (simp add: keys_stay_unique_def)
  from distinct_concat_same [OF this assms(2,3) 1 2] show ?thesis by simp
qed

lemma dict_keys_iff: "k \<in> set (dict_keys ps) \<longleftrightarrow> (\<exists>sub. (k, PDict sub) \<in> set ps)"
proof
  assume "k \<in> set (dict_keys ps)"
  then obtain v where "(k, v) \<in> set ps" "is_dict v" by (auto simp: dict_keys_def)
  then show "\<exists>sub. (k, PDict sub) \<in> set ps" by (cases v) auto
next
  assume "\<exists>sub. (k, PDict sub) \<in> set ps"
  then show "k \<in> set (dict_keys ps)" by (force simp: dict_keys_def)
qed

lemma distinct_dict_keys: "distinct (map fst ps) \<Longrightarrow> distinct (dict_keys ps)"
  by (simp add: dict_keys_def distinct_map_filter)

lemma distinct_flatten_keys:
  "distinct (map fst ps) \<Longrightarrow> distinct (map fst (fst (flatten_keys keys ps)))"
proof (induction keys arbitrary: ps)
  case Nil
  then show ?case by simp
next
  case (Cons key keys)
  then show ?case
    by (auto simp: distinct_flatten_key split: option.splits pyval.splits)
qed

lemma flatten_all:
  assumes "keys_stay_unique ps"
  shows "\<exists>out. flatten_keys (dict_keys ps) ps = (out, None) \<and> distinct (map fst out) \<and>
           (\<forall>k sub. (k, PDict sub) \<in> set ps \<longrightarrow> map_of out k = None) \<and>
           (\<forall>k sub a va. (k, PDict sub) \<in> set ps \<and> (a, va) \<in> set sub \<longrightarrow>
                map_of out (subparam k a) = Some va) \<and>
           (\<forall>k v. (k, v) \<in> set ps \<and> \<not> is_dict v \<longrightarrow> map_of out k = Some v)"
proof -
  define D where "D k = (case map_of ps k of Some (PDict sub) \<Rightarrow> sub | _ \<Rightarrow> [])" for k
  have dist: "distinct (map fst ps)" using assms by (rule unique_keys)
  have D: "D k = sub" if "(k, PDict sub) \<in> set ps" for k sub
    using that dist by (simp add: D_def)
  have in_keys: "\<exists>sub. (k, PDict sub) \<in> set ps \<and> D k = sub" if "k \<in> set (dict_keys ps)" for k
    using that D by (auto simp: dict_keys_iff)
  have "\<exists>out. flatten_keys (dict_keys ps) ps = (out, None) \<and>
           (\<forall>x \<in> set (dict_keys ps). map_of out x = None) \<and>
           (\<forall>key \<in> set (dict_keys ps). \<forall>(a, va) \<in> set (D key).
               map_of out (subparam key a) = Some va) \<and>
           (\<forall>x. x \<notin> set (dict_keys ps) \<and>
                 (\<forall>key \<in> set (dict_keys ps). x \<notin> subparam key ` fst ` set (D key))
                 \<longrightarrow> map_of out x = map_of ps x)"
  proof (rule flatten_keys_unique)
    show "distinct (dict_keys ps)" using dist by (rule distinct_dict_keys)
    show "\<forall>key \<in> set (dict_keys ps). map_of ps key = Some (PDict (D key))"
    proof
      fix key assume "key \<in> set (dict_keys ps)"
      from in_keys [OF this] obtain sub where "(key, PDict sub) \<in> set ps" "D key = sub" by blast
      then show "map_of ps key = Some (PDict (D key))" using dist by simp
    qed
    show "\<forall>key \<in> set (dict_keys ps). distinct (map fst (D key))"
    proof
      fix key assume "key \<in> set (dict_keys ps)"
      from in_keys [OF this] obtain sub where "(key, PDict sub) \<in> set ps" "D key = sub" by blast
      then show "distinct (map fst (D key))" using unique_sub [OF assms] by blast
    qed
    show "\<forall>key \<in> set (dict_keys ps). \<forall>a \<in> fst ` set (D key). subparam key a \<notin> set (dict_keys ps)"
    proof (intro ballI notI)
      fix key a assume key: "key \<in> set (dict_keys ps)" and a: "a \<in> fst ` set (D key)"
        and bad: "subparam key a \<in> set (dict_keys ps)"
      from in_keys [OF key] obtain sub where "(key, PDict sub) \<in> set ps" "D key = sub" by blast
      with a have "subparam key a \<notin> fst ` set ps" using unique_fresh [OF assms] by blast
      moreover from bad have "subparam key a \<in> fst ` set ps"
        by (force simp: dict_keys_iff)
      ultimately show False by simp
    qed
    show "\<forall>key \<in> set (dict_keys ps). \<forall>key' \<in> set (dict_keys ps).
            \<forall>a \<in> fst ` set (D key). \<forall>a' \<in> fst ` set (D key').
              subparam key a = subparam key' a' \<longrightarrow> key = key'"
    proof (intro ballI impI)
      fix key key' a a'
      assume key: "key \<in> set (dict_keys ps)" and key': "key' \<in> set (dict_keys ps)"
        and a: "a \<in> fst ` set (D key)" and a': "a' \<in> fst ` set (D key')"
        and eq: "subparam key a = subparam key' a'"
      from in_keys [OF key] obtain sub where s: "(key, PDict sub) \<in> set ps" "D key = sub"
        by blast
      from in_keys [OF key'] obtain sub' where s': "(key', PDict sub') \<in> set ps" "D key' = sub'"
        by blast
      show "key = key'"
        using unique_apart [OF assms s(1) s'(1) _ _ eq] a a' s(2) s'(2) by simp
    qed
  qed
  then obtain out where out: "flatten_keys (dict_keys ps) ps = (out, None)"
    and gone: "\<And>x. x \<in> set (dict_keys ps) \<Longrightarrow> map_of out x = None"
    and made: "\<And>key a va. key \<in> set (dict_keys ps) \<Longrightarrow> (a, va) \<in> set (D key) \<Longrightarrow>
                 map_of out (subparam key a) = Some va"
    and kept: "\<And>x. x \<notin> set (dict_keys ps) \<Longrightarrow>
                 (\<forall>key \<in> set (dict_keys ps). x \<notin> subparam key ` fst ` set (D key)) \<Longrightarrow>
                 map_of out x = map_of ps x"
    by blast
  have "distinct (map fst out)"
    using distinct_flatten_keys [OF dist, of "dict_keys ps"] out by simp
  moreover have "map_of out k = None" if "(k, PDict sub) \<in> set ps" for k sub
  proof -
    from that have "k \<in> set (dict_keys ps)" by (auto simp: dict_keys_iff)
    then show ?thesis by (rule gone)
  qed
  moreover have "map_of out (subparam k a) = Some va"
    if "(k, PDict sub) \<in> set ps" "(a, va) \<in> set sub" for k sub a va
  proof -
    from that(1) have "k \<in> set (dict_keys ps)" by (auto simp: dict_keys_iff)
    moreover from that have "(a, va) \<in> set (D k)" by (simp add: D)
    ultimately show ?thesis by (rule made)
  qed
  moreover have "map_of out k = Some v" if "(k, v) \<in> set ps" "\<not> is_dict v" for k v
  proof -
    have "k \<notin> set (dict_keys ps)"
    proof
      assume "k \<in> set (dict_keys ps)"
      then obtain sub where "(k, PDict sub) \<in> set ps" by (auto simp: dict_keys_iff)
      from eq_key_imp_eq_value [OF dist that(1) this] have "v = PDict sub" .
      with that(2) show False by simp
    qed
    moreover have "\<forall>key \<in> set (dict_keys ps). k \<notin> subparam key ` fst ` set (D key)"
    proof (intro ballI notI)
      fix key assume key: "key \<in> set (dict_keys ps)"
        and "k \<in> subparam key ` fst ` set (D key)"
      then obtain a where a: "a \<in> fst ` set (D key)" "k = subparam key a" by auto
      from in_keys [OF key] obtain sub where sub: "(key, PDict sub) \<in> set ps" "D key = sub"
        by blast
      from a(1) sub(2) have "a \<in> fst ` set sub" by simp
      from unique_fresh [OF assms sub(1) this] have "subparam key a \<notin> fst ` set ps" .
      moreover have "k \<in> fst ` set ps" using that(1) by force
      ultimately show False using a(2) by simp
    qed
    ultimately have "map_of out k = map_of ps k" by (rule kept)
    also have "\<dots> = Some v" using that(1) dist by simp
    finally show ?thesis .
  qed
  ultimately show ?thesis using out by blast
qed

subsection \<open>Booleans to strings\<close>

lemma bool_updates_iff:
  "(k, u) \<in> set (bool_updates ps) \<longleftrightarrow>
     (\<exists>v. (k, v) \<in> set ps \<and> is_bool v \<and> u = PStr (lower (py_str v)))"
  by (auto simp: bool_updates_def)

lemma bool_updates_keys: "map fst (bool_updates ps) = map fst (filter (\<lambda>(k, v). is_bool v) ps)"
  by (simp add: bool_updates_def case_prod_unfold comp_def)

lemma distinct_bool_updates: "distinct (map fst ps) \<Longrightarrow> distinct (map fst (bool_updates ps))"
  by (simp add: bool_updates_keys distinct_map_filter)

lemma map_of_bools_to_strings:
  assumes "distinct (map fst ps)"
  shows "map_of (bools_to_strings ps) x = map_option encoded_value (map_of ps x)"
proof (cases "\<exists>v. (x, v) \<in> set ps \<and> is_bool v")
  case True
  then obtain v where v: "(x, v) \<in> set ps" "is_bool v" by blast
  then have "(x, PStr (lower (py_str v))) \<in> set (bool_updates ps)"
    by (auto simp: bool_updates_iff)
  then have "map_of (bools_to_strings ps) x = Some (PStr (lower (py_str v)))"
    using map_of_fold_update_in [of "\<lambda>k. k" "bool_updates ps" x "PStr (lower (py_str v))" ps]
      distinct_bool_updates [OF assms]
    by (simp add: bools_to_strings_def)
  moreover have "map_of ps x = Some v" using v(1) assms by simp
  ultimately show ?thesis using v(2) by (simp add: encoded_value_def)
next
  case False
  then have "x \<notin> fst ` set (bool_updates ps)"
    by (auto simp: bool_updates_iff)
  then have "map_of (bools_to_strings ps) x = map_of ps x"
    using map_of_fold_update_other [of x "\<lambda>k. k" "bool_updates ps" ps]
    by (simp add: bools_to_strings_def)
  moreover have "map_option encoded_value (map_of ps x) = map_of ps x"
  proof (cases "map_of ps x")
    case None
    then show ?thesis by simp
  next
    case (Some v)
    then have "(x, v) \<in> set ps" by (rule map_of_SomeD)
    with False have "\<not> is_bool v" by blast
    with Some show ?thesis by (simp add: encoded_value_def)
  qed
  ultimately show ?thesis by simp
qed

lemma distinct_bools_to_strings:
  "distinct (map fst ps) \<Longrightarrow> distinct (map fst (bools_to_strings ps))"
  using distinct_fold_update [of ps "\<lambda>k. k" "bool_updates ps"]
  by (simp add: bools_to_strings_def)

lemma keys_bools_to_strings: "fst ` set (bools_to_strings ps) = fst ` set ps"
proof -
  have "fst ` set (bool_updates ps) \<subseteq> fst ` set ps"
    by (force simp: bool_updates_iff)
  then show ?thesis
    using keys_fold_update [of "\<lambda>k. k" "bool_updates ps" ps]
    by (auto simp: bools_to_strings_def)
qed

lemma set_bools_to_strings:
  assumes "distinct (map fst ps)"
  shows "set (bools_to_strings ps) = (\<lambda>(k, v). (k, encoded_value v)) ` set ps"
proof (rule set_eqI)
  fix p :: "string \<times> pyval"
  obtain k u where p: "p = (k, u)" by (cases p)
  have "(k, u) \<in> set (bools_to_strings ps) \<longleftrightarrow> map_of (bools_to_strings ps) k = Some u"
    using distinct_bools_to_strings [OF assms] by simp
  also have "\<dots> \<longleftrightarrow> (\<exists>v. map_of ps k = Some v \<and> u = encoded_value v)"
    by (auto simp: map_of_bools_to_strings [OF assms])
  also have "\<dots> \<longleftrightarrow> (\<exists>v. (k, v) \<in> set ps \<and> u = encoded_value v)"
    using assms by simp
  also have "\<dots> \<longleftrightarrow> (k, u) \<in> (\<lambda>(k, v). (k, encoded_value v)) ` set ps"
    by force
  finally show "p \<in> set (bools_to_strings ps) \<longleftrightarrow> p \<in> (\<lambda>(k, v). (k, encoded_value v)) ` set ps"
    by (simp add: p)
qed

lemma bools_to_strings_id:
  "\<forall>v \<in> snd ` set ps. \<not> is_bool v \<Longrightarrow> bools_to_strings ps = ps"
proof -
  assume "\<forall>v \<in> snd ` set ps. \<not> is_bool v"
  then have "filter (\<lambda>(k, v). is_bool v) ps = []"
    by (auto simp: filter_empty_conv)
  then show ?thesis by (simp add: bools_to_strings_def bool_updates_def)
qed

subsection \<open>Values that survive the flattening\<close>

lemma set_leaves: "set (leaves ps) = (\<Union>(k, v) \<in> set ps. set (leaf_values v))"
  by (auto simp: leaves_def)

lemma leaf_values_not_dict: "\<not> is_dict v \<Longrightarrow> leaf_values v = [v]"
  by (cases v) auto

lemma scalar_entries_not_dict: "\<not> is_dict v \<Longrightarrow> scalar_entries v"
  by (cases v) auto

lemma flatten_key_values:
  assumes "one_level ps" and "(key, PDict sub) \<in> set ps" and "(x, v) \<in> set (flatten_key key sub ps)"
  shows "((x, v) \<in> set ps \<and> x \<noteq> key) \<or> (\<not> is_dict v \<and> v \<in> snd ` set sub)"
proof -
  from assms(3) set_flatten_key [of key sub ps]
  consider "(x, v) \<in> set ps" "x \<noteq> key" | a where "(a, v) \<in> set sub"
    by auto
  then show ?thesis
  proof cases
    case 1
    then show ?thesis by simp
  next
    case 2
    from assms(1,2) have "scalar_entries (PDict sub)"
      by (force simp: one_level_def)
    with 2 have "\<not> is_dict v" by force
    with 2 show ?thesis by force
  qed
qed

lemma flatten_key_one_level:
  assumes "one_level ps" and "(key, PDict sub) \<in> set ps"
  shows "one_level (flatten_key key sub ps)"
  unfolding one_level_def
proof
  fix v assume "v \<in> snd ` set (flatten_key key sub ps)"
  then obtain x where "(x, v) \<in> set (flatten_key key sub ps)" by auto
  from flatten_key_values [OF assms this] show "scalar_entries v"
  proof
    assume "(x, v) \<in> set ps \<and> x \<noteq> key"
    with assms(1) show ?thesis by (force simp: one_level_def)
  next
    assume "\<not> is_dict v \<and> v \<in> snd ` set sub"
    then show ?thesis by (simp add: scalar_entries_not_dict)
  qed
qed

lemma flatten_key_leaves:
  assumes "one_level ps" and "(key, PDict sub) \<in> set ps"
  shows "set (leaves (flatten_key key sub ps)) \<subseteq> set (leaves ps)"
proof
  fix l assume "l \<in> set (leaves (flatten_key key sub ps))"
  then obtain x v where xv: "(x, v) \<in> set (flatten_key key sub ps)" "l \<in> set (leaf_values v)"
    by (auto simp: set_leaves)
  from flatten_key_values [OF assms xv(1)] show "l \<in> set (leaves ps)"
  proof
    assume "(x, v) \<in> set ps \<and> x \<noteq> key"
    with xv(2) show ?thesis by (auto simp: set_leaves)
  next
    assume nd: "\<not> is_dict v \<and> v \<in> snd ` set sub"
    with xv(2) have "l = v" by (simp add: leaf_values_not_dict)
    with nd have "l \<in> set (leaf_values (PDict sub))" by simp
    with assms(2) show ?thesis by (auto simp: set_leaves simp del: leaf_values.simps)
  qed
qed

lemma flatten_keys_one_level:
  "one_level ps \<Longrightarrow>
     one_level (fst (flatten_keys keys ps)) \<and>
     set (leaves (fst (flatten_keys keys ps))) \<subseteq> set (leaves ps)"
proof (induction keys arbitrary: ps)
  case Nil
  then show ?case by simp
next
  case (Cons key keys)
  show ?case
  proof (cases "\<exists>sub. map_of ps key = Some (PDict sub)")
    case True
    then obtain sub where sub: "map_of ps key = Some (PDict sub)" by blast
    then have mem: "(key, PDict sub) \<in> set ps" by (rule map_of_SomeD)
    from flatten_key_one_level [OF Cons.prems mem]
    have "one_level (fst (flatten_keys keys (flatten_key key sub ps))) \<and>
          set (leaves (fst (flatten_keys keys (flatten_key key sub ps))))
            \<subseteq> set (leaves (flatten_key key sub ps))"
      by (rule Cons.IH)
    with flatten_key_leaves [OF Cons.prems mem] sub show ?thesis by auto
  next
    case False
    then have "fst (flatten_keys (key # keys) ps) = ps"
      by (auto split: option.splits pyval.splits)
    with Cons.prems show ?thesis by simp
  qed
qed

lemma flatten_keys_no_dict:
  "one_level ps \<Longrightarrow> snd (flatten_keys keys ps) = None \<Longrightarrow>
     (\<forall>(k, v) \<in> set ps. is_dict v \<longrightarrow> k \<in> set keys) \<Longrightarrow>
     (k, v) \<in> set (fst (flatten_keys keys ps)) \<Longrightarrow> \<not> is_dict v"
proof (induction keys arbitrary: ps)
  case Nil
  then show ?case by auto
next
  case (Cons key keys)
  from Cons.prems(2) obtain sub where sub: "map_of ps key = Some (PDict sub)"
    by (auto split: option.splits pyval.splits)
  then have mem: "(key, PDict sub) \<in> set ps" by (rule map_of_SomeD)
  let ?ps1 = "flatten_key key sub ps"
  have "\<forall>(x, w) \<in> set ?ps1. is_dict w \<longrightarrow> x \<in> set keys"
  proof (clarify)
    fix x w assume xw: "(x, w) \<in> set ?ps1" "is_dict w"
    from flatten_key_values [OF Cons.prems(1) mem xw(1)] xw(2)
    have "(x, w) \<in> set ps" "x \<noteq> key" by auto
    with Cons.prems(3) xw(2) show "x \<in> set keys" by auto
  qed
  moreover have "one_level ?ps1" using Cons.prems(1) mem by (rule flatten_key_one_level)
  moreover have "snd (flatten_keys keys ?ps1) = None" using Cons.prems(2) sub by simp
  moreover have "(k, v) \<in> set (fst (flatten_keys keys ?ps1))" using Cons.prems(4) sub by simp
  ultimately show ?case using Cons.IH [of ?ps1] by blast
qed

lemma dict_keys_cover: "\<forall>(k, v) \<in> set ps. is_dict v \<longrightarrow> k \<in> set (dict_keys ps)"
  by (force simp: dict_keys_def)

subsection \<open>The dictionary is rewritten in place\<close>

lemma flatten_keys_drops:
  "map_of ps key = Some (PDict sub) \<Longrightarrow>
     \<exists>k \<in> set (key # keys). map_of (fst (flatten_keys (key # keys) ps)) k = None"
proof (induction keys arbitrary: ps key sub)
  case Nil
  then show ?case by (simp add: flatten_key_key)
next
  case (Cons key2 keys)
  let ?ps1 = "flatten_key key sub ps"
  show ?case
  proof (cases "\<exists>sub2. map_of ?ps1 key2 = Some (PDict sub2)")
    case True
    then obtain sub2 where "map_of ?ps1 key2 = Some (PDict sub2)" by blast
    from Cons.IH [OF this]
    have "\<exists>k \<in> set (key2 # keys). map_of (fst (flatten_keys (key2 # keys) ?ps1)) k = None" .
    moreover have "flatten_keys (key # key2 # keys) ps = flatten_keys (key2 # keys) ?ps1"
      using Cons.prems by simp
    ultimately show ?thesis by auto
  next
    case False
    then have "fst (flatten_keys (key2 # keys) ?ps1) = ?ps1"
      by (auto split: option.splits pyval.splits)
    moreover have "flatten_keys (key # key2 # keys) ps = flatten_keys (key2 # keys) ?ps1"
      using Cons.prems by simp
    ultimately have "map_of (fst (flatten_keys (key # key2 # keys) ps)) key = None"
      by (simp add: flatten_key_key del: flatten_keys.simps)
    then show ?thesis by (auto simp del: flatten_keys.simps)
  qed
qed

lemma fst_encode_params_keys:
  "fst ` set (fst (encode_params ps)) = fst ` set (fst (flatten_keys (dict_keys ps) ps))"
  by (auto simp: encode_params_def keys_bools_to_strings split: prod.splits option.splits)

lemma encode_params_unchanged:
  "\<forall>v \<in> snd ` set ps. \<not> is_dict v \<and> \<not> is_bool v \<Longrightarrow> encode_params ps = (ps, None)"
proof -
  assume a: "\<forall>v \<in> snd ` set ps. \<not> is_dict v \<and> \<not> is_bool v"
  then have "dict_keys ps = []"
    by (auto simp: dict_keys_def filter_empty_conv)
  moreover from a have "bools_to_strings ps = ps"
    by (intro bools_to_strings_id) auto
  ultimately show ?thesis by (simp add: encode_params_def)
qed

lemma encode_params_changed:
  assumes "distinct (map fst ps)" and "(k, v) \<in> set ps" and "is_dict v \<or> is_bool v"
  shows "fst (encode_params ps) \<noteq> ps"
proof (cases "dict_keys ps")
  case Nil
  then have nodict: "\<forall>(k, v) \<in> set ps. \<not> is_dict v"
    using dict_keys_cover [of ps] by auto
  with assms(2,3) have b: "is_bool v" by auto
  from Nil have "fst (encode_params ps) = bools_to_strings ps"
    by (simp add: encode_params_def)
  moreover have "map_of (bools_to_strings ps) k = Some (encoded_value v)"
    using assms(1,2) by (simp add: map_of_bools_to_strings)
  moreover have "map_of ps k = Some v" using assms(1,2) by simp
  moreover have "encoded_value v \<noteq> v" using b by (cases v) (auto simp: encoded_value_def)
  ultimately show ?thesis by auto
next
  case (Cons key keys)
  then have "key \<in> set (dict_keys ps)" by simp
  then obtain sub where mem: "(key, PDict sub) \<in> set ps" by (auto simp: dict_keys_iff)
  then have "map_of ps key = Some (PDict sub)" using assms(1) by simp
  from flatten_keys_drops [OF this, of keys] Cons
  obtain k' where k': "k' \<in> set (dict_keys ps)"
    "map_of (fst (flatten_keys (dict_keys ps) ps)) k' = None" by auto
  then have "k' \<notin> fst ` set (fst (flatten_keys (dict_keys ps) ps))"
    by (simp add: map_of_eq_None_iff)
  then have "k' \<notin> fst ` set (fst (encode_params ps))"
    by (simp add: fst_encode_params_keys)
  moreover from k'(1) have "k' \<in> fst ` set ps" by (force simp: dict_keys_iff)
  ultimately show ?thesis by auto
qed

lemma fst_Client_req:
  "fst (Client_req session self method page params0)
     = fst (encode_params (case params0 of None \<Rightarrow> [] | Some p \<Rightarrow> p))"
  by (simp add: Client_req_def split: prod.splits option.splits)

lemma encode_params_unique:
  assumes "keys_stay_unique ps"
  shows "\<exists>out. encode_params ps = (out, None) \<and> distinct (map fst out) \<and>
           (\<forall>k sub. (k, PDict sub) \<in> set ps \<longrightarrow> map_of out k = None) \<and>
           (\<forall>k sub a va. (k, PDict sub) \<in> set ps \<and> (a, va) \<in> set sub \<longrightarrow>
                map_of out (subparam k a) = Some (encoded_value va)) \<and>
           (\<forall>k v. (k, v) \<in> set ps \<and> \<not> is_dict v \<longrightarrow> map_of out k = Some (encoded_value v))"
proof -
  from flatten_all [OF assms] obtain mid where
    H: "flatten_keys (dict_keys ps) ps = (mid, None) \<and> distinct (map fst mid) \<and>
        (\<forall>k sub. (k, PDict sub) \<in> set ps \<longrightarrow> map_of mid k = None) \<and>
        (\<forall>k sub a va. (k, PDict sub) \<in> set ps \<and> (a, va) \<in> set sub \<longrightarrow>
             map_of mid (subparam k a) = Some va) \<and>
        (\<forall>k v. (k, v) \<in> set ps \<and> \<not> is_dict v \<longrightarrow> map_of mid k = Some v)" ..
  then have mid: "flatten_keys (dict_keys ps) ps = (mid, None)"
    and dist: "distinct (map fst mid)" by blast+
  let ?out = "bools_to_strings mid"
  have "encode_params ps = (?out, None)" using mid by (simp add: encode_params_def)
  moreover have "distinct (map fst ?out)" using dist by (rule distinct_bools_to_strings)
  moreover have "map_of ?out k = None" if "(k, PDict sub) \<in> set ps" for k sub
  proof -
    from H that have "map_of mid k = None" by blast
    then show ?thesis by (simp only: map_of_bools_to_strings [OF dist] option.map)
  qed
  moreover have "map_of ?out (subparam k a) = Some (encoded_value va)"
    if "(k, PDict sub) \<in> set ps \<and> (a, va) \<in> set sub" for k sub a va
  proof -
    from H that have "map_of mid (subparam k a) = Some va" by blast
    then show ?thesis by (simp only: map_of_bools_to_strings [OF dist] option.map)
  qed
  moreover have "map_of ?out k = Some (encoded_value v)"
    if "(k, v) \<in> set ps \<and> \<not> is_dict v" for k v
  proof -
    from H that have "map_of mid k = Some v" by blast
    then show ?thesis by (simp only: map_of_bools_to_strings [OF dist] option.map)
  qed
  ultimately show ?thesis by blast
qed

text \<open>
  C2. When the keys of the parameters stay unique under flattening and \<^verbatim>\<open>k\<close> holds a
  nested dictionary, the encoding succeeds, removes \<^verbatim>\<open>k\<close>, binds \<^verbatim>\<open>k[a]\<close> to the value
  the nested dictionary has under \<^verbatim>\<open>a\<close>, and keeps every other key whose value is not a
  dictionary; values pass unchanged except booleans, which become \<^verbatim>\<open>true\<close> or
  \<^verbatim>\<open>false\<close>.
\<close>

theorem encode_params_flattens:
  assumes "keys_stay_unique ps" and "(k, PDict sub) \<in> set ps"
  shows "\<exists>out. encode_params ps = (out, None) \<and> map_of out k = None \<and>
           (\<forall>(a, va) \<in> set sub.
               map_of out (k @ ''['' @ a @ '']'') = Some (encoded_value va)) \<and>
           (\<forall>(k', v') \<in> set ps. \<not> is_dict v' \<longrightarrow> map_of out k' = Some (encoded_value v'))"
proof -
  from encode_params_unique [OF assms(1)] obtain out where
    H: "encode_params ps = (out, None) \<and> distinct (map fst out) \<and>
           (\<forall>k sub. (k, PDict sub) \<in> set ps \<longrightarrow> map_of out k = None) \<and>
           (\<forall>k sub a va. (k, PDict sub) \<in> set ps \<and> (a, va) \<in> set sub \<longrightarrow>
                map_of out (subparam k a) = Some (encoded_value va)) \<and>
           (\<forall>k v. (k, v) \<in> set ps \<and> \<not> is_dict v \<longrightarrow> map_of out k = Some (encoded_value v))" ..
  have 1: "encode_params ps = (out, None)" using H by blast
  have 2: "map_of out k = None" using H assms(2) by blast
  have 3: "map_of out (k @ ''['' @ a @ '']'') = Some (encoded_value va)"
    if "(a, va) \<in> set sub" for a va
  proof -
    from H assms(2) that have "map_of out (subparam k a) = Some (encoded_value va)" by blast
    then show ?thesis by (simp only: subparam_eq)
  qed
  have 4: "map_of out k' = Some (encoded_value v')" if "(k', v') \<in> set ps" "\<not> is_dict v'" for k' v'
    using H that by blast
  show ?thesis
  proof (intro exI conjI)
    show "encode_params ps = (out, None)" by (rule 1)
    show "map_of out k = None" by (rule 2)
    show "\<forall>(a, va) \<in> set sub. map_of out (k @ ''['' @ a @ '']'') = Some (encoded_value va)"
      using 3 by auto
    show "\<forall>(k', v') \<in> set ps. \<not> is_dict v' \<longrightarrow> map_of out k' = Some (encoded_value v')"
      using 4 by auto
  qed
qed

theorem encode_params_flattens_witness:
  "keys_stay_unique
     [(''amount'', PInt 103), (''currency'', PStr ''usd''), (''k'', PStr ''1''), (''j'', PInt 2),
      (''metadata'', PDict [(''md1'', PStr ''hi''), (''md2'', PStr ''other'')]),
      (''tf'', PBool True)] \<and>
   (\<exists>out. encode_params
       [(''amount'', PInt 103), (''currency'', PStr ''usd''), (''k'', PStr ''1''), (''j'', PInt 2),
        (''metadata'', PDict [(''md1'', PStr ''hi''), (''md2'', PStr ''other'')]),
        (''tf'', PBool True)] = (out, None) \<and>
      map_of out ''metadata'' = None \<and>
      map_of out ''metadata[md1]'' = Some (PStr ''hi'') \<and>
      map_of out ''metadata[md2]'' = Some (PStr ''other'') \<and>
      map_of out ''amount'' = Some (PInt 103) \<and>
      map_of out ''currency'' = Some (PStr ''usd'') \<and>
      map_of out ''tf'' = Some (PStr ''true''))"
proof -
  let ?ps = "[(''amount'', PInt 103), (''currency'', PStr ''usd''), (''k'', PStr ''1''),
              (''j'', PInt 2),
              (''metadata'', PDict [(''md1'', PStr ''hi''), (''md2'', PStr ''other'')]),
              (''tf'', PBool True)]"
  have u: "keys_stay_unique ?ps"
    by (simp add: keys_stay_unique_def subparam_eq)
  have m: "(''metadata'', PDict [(''md1'', PStr ''hi''), (''md2'', PStr ''other'')]) \<in> set ?ps"
    by simp
  from encode_params_flattens [OF u m] show ?thesis
    using u by (auto simp: encoded_value_bool encoded_value_other)
qed

text \<open>
  Without these provisos the other keys are not preserved with their values: a boolean
  under another key is rewritten, and a key that equals a made name is overwritten.
\<close>

theorem encode_params_other_keys_changed:
  "map_of [(''k'', PDict [(''a'', PInt 1)]), (''tf'', PBool True)] ''tf'' = Some (PBool True) \<and>
   encode_params [(''k'', PDict [(''a'', PInt 1)]), (''tf'', PBool True)]
     = ([(''tf'', PStr ''true''), (''k[a]'', PInt 1)], None) \<and>
   map_of [(''k'', PDict [(''a'', PInt 1)]), (''k[a]'', PInt 5)] ''k[a]'' = Some (PInt 5) \<and>
   encode_params [(''k'', PDict [(''a'', PInt 1)]), (''k[a]'', PInt 5)]
     = ([(''k[a]'', PInt 1)], None)"
  by code_simp

text \<open>
  C3. For a dictionary that is one level deep, whatever the encoding produces holds no
  dictionary and no boolean, and each of its values is an input value, with booleans
  turned into \<^verbatim>\<open>true\<close> or \<^verbatim>\<open>false\<close>. When the keys stay unique under flattening the
  encoding does produce a result, and its values are exactly the encoded input values.
\<close>

theorem encode_params_flat_values:
  assumes "distinct (map fst ps)" and "one_level ps"
  shows "(\<forall>out. encode_params ps = (out, None) \<longrightarrow>
            (\<forall>(k, v) \<in> set out.
                \<not> is_dict v \<and> \<not> is_bool v \<and> v \<in> encoded_value ` set (leaves ps))) \<and>
         (keys_stay_unique ps \<longrightarrow>
            (\<exists>out. encode_params ps = (out, None) \<and>
                   snd ` set out = encoded_value ` set (leaves ps)))"
proof (intro conjI allI impI)
  fix out assume enc: "encode_params ps = (out, None)"
  obtain mid r where fl: "flatten_keys (dict_keys ps) ps = (mid, r)"
    by (cases "flatten_keys (dict_keys ps) ps")
  with enc have r: "r = None" and out: "out = bools_to_strings mid"
    by (auto simp: encode_params_def split: option.splits)
  have dist: "distinct (map fst mid)"
    using distinct_flatten_keys [OF assms(1), of "dict_keys ps"] fl by simp
  have nodict: "\<not> is_dict w" if "(x, w) \<in> set mid" for x w
    using flatten_keys_no_dict [OF assms(2) _ dict_keys_cover, of x w] that fl r by simp
  have lv: "set (leaves mid) \<subseteq> set (leaves ps)"
    using flatten_keys_one_level [OF assms(2), of "dict_keys ps"] fl by simp
  show "\<forall>(k, v) \<in> set out.
          \<not> is_dict v \<and> \<not> is_bool v \<and> v \<in> encoded_value ` set (leaves ps)"
  proof (clarify, intro conjI)
    fix k v assume "(k, v) \<in> set out"
    then obtain w where w: "(k, w) \<in> set mid" "v = encoded_value w"
      by (auto simp: out set_bools_to_strings [OF dist])
    from nodict [OF w(1)] have nd: "\<not> is_dict w" .
    then show "\<not> is_dict v" by (simp add: w(2) encoded_value_is_dict)
    show "\<not> is_bool v" by (simp add: w(2) encoded_value_not_bool)
    from nd w(1) have "w \<in> set (leaves mid)"
      by (force simp: set_leaves leaf_values_not_dict)
    with lv show "v \<in> encoded_value ` set (leaves ps)" by (auto simp: w(2))
  qed
next
  assume u: "keys_stay_unique ps"
  from encode_params_unique [OF u] obtain out where
    H: "encode_params ps = (out, None) \<and> distinct (map fst out) \<and>
           (\<forall>k sub. (k, PDict sub) \<in> set ps \<longrightarrow> map_of out k = None) \<and>
           (\<forall>k sub a va. (k, PDict sub) \<in> set ps \<and> (a, va) \<in> set sub \<longrightarrow>
                map_of out (subparam k a) = Some (encoded_value va)) \<and>
           (\<forall>k v. (k, v) \<in> set ps \<and> \<not> is_dict v \<longrightarrow> map_of out k = Some (encoded_value v))" ..
  then have enc: "encode_params ps = (out, None)" by blast
  obtain mid r where fl: "flatten_keys (dict_keys ps) ps = (mid, r)"
    by (cases "flatten_keys (dict_keys ps) ps")
  with enc have r: "r = None" and out: "out = bools_to_strings mid"
    by (auto simp: encode_params_def split: option.splits)
  have dist: "distinct (map fst mid)"
    using distinct_flatten_keys [OF assms(1), of "dict_keys ps"] fl by simp
  have sub1: "snd ` set out \<subseteq> encoded_value ` set (leaves ps)"
  proof
    fix v assume "v \<in> snd ` set out"
    then obtain k w where w: "(k, w) \<in> set mid" "v = encoded_value w"
      by (auto simp: out set_bools_to_strings [OF dist])
    have "\<not> is_dict w"
      using flatten_keys_no_dict [OF assms(2) _ dict_keys_cover, of k w] w(1) fl r by simp
    with w(1) have "w \<in> set (leaves mid)"
      by (force simp: set_leaves leaf_values_not_dict)
    moreover have "set (leaves mid) \<subseteq> set (leaves ps)"
      using flatten_keys_one_level [OF assms(2), of "dict_keys ps"] fl by simp
    ultimately show "v \<in> encoded_value ` set (leaves ps)" by (auto simp: w(2))
  qed
  have sub2: "encoded_value ` set (leaves ps) \<subseteq> snd ` set out"
  proof
    fix v assume "v \<in> encoded_value ` set (leaves ps)"
    then obtain k w l where l: "(k, w) \<in> set ps" "l \<in> set (leaf_values w)" "v = encoded_value l"
      by (auto simp: set_leaves)
    show "v \<in> snd ` set out"
    proof (cases "is_dict w")
      case True
      then obtain sub where w: "w = PDict sub" by (cases w) auto
      with l(2) obtain a where "(a, l) \<in> set sub" by auto
      with H l(1) w have "map_of out (subparam k a) = Some (encoded_value l)" by blast
      then have "(subparam k a, v) \<in> set out" unfolding l(3) by (rule map_of_SomeD)
      then show ?thesis by force
    next
      case False
      with l(2) have "l = w" by (simp add: leaf_values_not_dict)
      moreover from H l(1) False have "map_of out k = Some (encoded_value w)" by blast
      ultimately have "(k, v) \<in> set out" unfolding l(3) by (simp only: map_of_SomeD)
      then show ?thesis by force
    qed
  qed
  from enc sub1 sub2 show "\<exists>out. encode_params ps = (out, None) \<and>
          snd ` set out = encoded_value ` set (leaves ps)"
    by blast
qed

theorem encode_params_flat_values_witness:
  "distinct (map fst
     [(''amount'', PInt 103), (''metadata'', PDict [(''a'', PStr ''hi''), (''b'', PBool False)]),
      (''flag'', PBool True)]) \<and>
   one_level
     [(''amount'', PInt 103), (''metadata'', PDict [(''a'', PStr ''hi''), (''b'', PBool False)]),
      (''flag'', PBool True)] \<and>
   encode_params
     [(''amount'', PInt 103), (''metadata'', PDict [(''a'', PStr ''hi''), (''b'', PBool False)]),
      (''flag'', PBool True)]
     = ([(''amount'', PInt 103), (''flag'', PStr ''true''), (''metadata[a]'', PStr ''hi''),
         (''metadata[b]'', PStr ''false'')], None) \<and>
   \<not> is_dict (PStr ''false'') \<and> \<not> is_bool (PStr ''false'') \<and>
   PStr ''false'' \<in> encoded_value ` set (leaves
        [(''amount'', PInt 103), (''metadata'', PDict [(''a'', PStr ''hi''), (''b'', PBool False)]),
         (''flag'', PBool True)])"
proof -
  let ?ps = "[(''amount'', PInt 103),
              (''metadata'', PDict [(''a'', PStr ''hi''), (''b'', PBool False)]),
              (''flag'', PBool True)]"
  let ?out = "[(''amount'', PInt 103), (''flag'', PStr ''true''),
               (''metadata[a]'', PStr ''hi''), (''metadata[b]'', PStr ''false'')]"
  have d: "distinct (map fst ?ps)" by simp
  have o: "one_level ?ps" by (simp add: one_level_def)
  have e: "encode_params ?ps = (?out, None)" by code_simp
  from encode_params_flat_values [OF d o, THEN conjunct1, THEN spec, THEN mp, OF e]
  have "\<forall>(k, v) \<in> set ?out.
          \<not> is_dict v \<and> \<not> is_bool v \<and> v \<in> encoded_value ` set (leaves ?ps)" .
  then have "case (''metadata[b]'', PStr ''false'') of
               (k, v) \<Rightarrow> \<not> is_dict v \<and> \<not> is_bool v \<and>
                 v \<in> encoded_value ` set (leaves ?ps)"
    by (rule bspec) simp
  then have "\<not> is_dict (PStr ''false'') \<and> \<not> is_bool (PStr ''false'') \<and>
             PStr ''false'' \<in> encoded_value ` set (leaves ?ps)"
    by (simp only: prod.case simp_thms)
  with d o e show ?thesis by blast
qed

text \<open>
  A dictionary nested inside a nested dictionary is passed on as it is, so the result
  then holds a dictionary.
\<close>

theorem encode_params_nested_twice:
  "encode_params [(''k'', PDict [(''a'', PDict [(''x'', PInt 1)])])]
     = ([(''k[a]'', PDict [(''x'', PInt 1)])], None) \<and>
   is_dict (PDict [(''x'', PInt 1)])"
  by code_simp

section \<open>Classifying the response: what holds\<close>

text \<open>
  Apart from the two inputs above, the classification is as documented. The constructor
  of \<^verbatim>\<open>StripeError\<close> records the status and takes the six fields from a non-empty
  \<^verbatim>\<open>error\<close> dictionary, with the empty string for a missing entry; the example is the
  404 response of the test suite.
\<close>

lemma StripeError_init_http_code: "StripeError_init st body = Inr err \<Longrightarrow> http_code err = st"
  by (auto simp: StripeError_init_def Let_def split: pyval.splits if_splits)

lemma StripeError_init_fields:
  assumes "map_of b ''error'' = Some (PDict e)" and "e \<noteq> []"
  shows "\<exists>err. StripeError_init st (PDict b) = Inr err \<and> http_code err = st \<and>
           type err = dict_get e ''type'' (PStr '''') \<and>
           charge err = dict_get e ''charge'' (PStr '''') \<and>
           message err = dict_get e ''message'' (PStr '''') \<and>
           code err = dict_get e ''code'' (PStr '''') \<and>
           decline_code err = dict_get e ''decline_code'' (PStr '''') \<and>
           param err = dict_get e ''param'' (PStr '''')"
  using assms by (simp add: StripeError_init_def Let_def dict_get_def)

lemma StripeError_init_no_fields:
  assumes "\<forall>b. body = PDict b \<longrightarrow> \<not> truthy (dict_get b ''error'' (PDict []))"
  shows "\<exists>err. StripeError_init st body = Inr err \<and> http_code err = st \<and>
           type err = PNone \<and> charge err = PNone \<and> message err = PNone \<and>
           code err = PNone \<and> decline_code err = PNone \<and> param err = PNone"
  using assms by (cases body) (simp_all add: StripeError_init_def Let_def)

lemma StripeError_init_example:
  "case StripeError_init 404
          (PDict [(''error'', PDict [(''type'', PStr ''invalid_request_error''),
                                     (''message'', PStr ''msg''), (''param'', PStr ''source''),
                                     (''code'', PStr ''missing'')])]) of
     Inl x \<Rightarrow> False
   | Inr err \<Rightarrow> type err = PStr ''invalid_request_error'' \<and> message err = PStr ''msg'' \<and>
       code err = PStr ''missing'' \<and> param err = PStr ''source'' \<and>
       decline_code err = PStr '''' \<and> charge err = PStr '''' \<and> http_code err = 404"
  by code_simp

text \<open>
  The only exceptions the encoding, the constructor and the membership test can raise.
\<close>

lemma StripeError_init_errors: "StripeError_init st body = Inl e \<Longrightarrow> e = AttributeError"
  by (auto simp: StripeError_init_def Let_def split: pyval.splits if_splits)

lemma flatten_keys_errors:
  "snd (flatten_keys keys ps) = Some e \<Longrightarrow> e = AttributeError \<or> (\<exists>k. e = KeyError k)"
  by (induction keys arbitrary: ps) (auto split: option.splits pyval.splits)

lemma encode_params_errors:
  "encode_params ps = (out, Some e) \<Longrightarrow> e = AttributeError \<or> (\<exists>k. e = KeyError k)"
  using flatten_keys_errors [of "dict_keys ps" ps e]
  by (auto simp: encode_params_def split: prod.splits option.splits)

lemma py_in_errors: "py_in s body = Inl e \<Longrightarrow> e = TypeError"
  by (cases body) auto

lemma format_delete: "format ''Failed to delete %s'' [a] = ''Failed to delete '' @ a"
  by simp

lemma format_parse:
  \<open>format ''Stripe response missing "object": %s'' [a] = ''Stripe response missing "object": '' @ a\<close>
  by simp

text \<open>The outcome of a request whose parameters were encoded, by the response.\<close>

lemma Client_req_outcome:
  assumes "encode_params (case params0 of None \<Rightarrow> [] | Some p \<Rightarrow> p) = (ps, None)"
  shows \<open>snd (Client_req session self method page params0) =
     (let r = session (make_request self method page ps) in
      if status r \<noteq> 200 then
        (case StripeError_init (status r) (read_body r) of
           Inl e \<Rightarrow> Inl e | Inr err \<Rightarrow> Inl (StripeError err))
      else if upper method = ''DELETE'' then
        (case read_body r of
           PDict b \<Rightarrow>
             if \<not> truthy (dict_get b ''deleted'' (PBool False)) then
               Inl (DeletionError (''Failed to delete '' @ py_str (dict_get b ''id'' PNone)))
             else Inr PNone
         | _ \<Rightarrow> Inl AttributeError)
      else
        (case py_in ''object'' (read_body r) of
           Inl e \<Rightarrow> Inl e
         | Inr False \<Rightarrow>
             Inl (ParseError (''Stripe response missing "object": '' @ py_str (read_body r)))
         | Inr True \<Rightarrow> convert_json_response (read_body r)))\<close>
  unfolding Client_req_def Let_def format_delete format_parse using assms by simp

text \<open>
  A \<^verbatim>\<open>StripeError\<close> is raised only for a status other than 200, and it records that
  status. It is raised for every such status when the \<^verbatim>\<open>error\<close> entry of a dictionary
  body is a dictionary or is falsy.
\<close>

lemma Client_req_StripeError_only_if:
  assumes "snd (Client_req session self method page params0) = Inl (StripeError err)"
  shows "\<exists>ps. encode_params (case params0 of None \<Rightarrow> [] | Some p \<Rightarrow> p) = (ps, None) \<and>
           status (session (make_request self method page ps)) \<noteq> 200 \<and>
           http_code err = status (session (make_request self method page ps))"
proof -
  obtain ps r where enc: "encode_params (case params0 of None \<Rightarrow> [] | Some p \<Rightarrow> p) = (ps, r)"
    by (cases "encode_params (case params0 of None \<Rightarrow> [] | Some p \<Rightarrow> p)")
  have none: "r = None"
  proof (cases r)
    case (Some e)
    with enc assms have "e = StripeError err" by (simp add: Client_req_def)
    with encode_params_errors [of _ ps e] enc Some show ?thesis by auto
  qed simp
  let ?r = "session (make_request self method page ps)"
  note out = Client_req_outcome [OF enc [unfolded none], of session self "method" page, unfolded Let_def]
  have "status ?r \<noteq> 200"
  proof
    assume ok: "status ?r = 200"
    show False
    proof (cases "upper method = ''DELETE''")
      case True
      with out ok assms show ?thesis
        by (auto split: pyval.splits if_splits)
    next
      case False
      with out ok assms show ?thesis
        by (auto split: sum.splits bool.splits dest: py_in_errors convert_errors convert_errors [OF sym])
    qed
  qed
  moreover from this out assms have "http_code err = status ?r"
    by (auto split: sum.splits dest: StripeError_init_http_code StripeError_init_errors)
  ultimately show ?thesis using enc none by blast
qed

lemma Client_req_not_200:
  assumes "encode_params (case params0 of None \<Rightarrow> [] | Some p \<Rightarrow> p) = (ps, None)"
    and "r = session (make_request self method page ps)"
    and "status r \<noteq> 200"
    and "\<forall>b. read_body r = PDict b \<longrightarrow>
           is_dict (dict_get b ''error'' (PDict [])) \<or> \<not> truthy (dict_get b ''error'' (PDict []))"
  shows "\<exists>err. snd (Client_req session self method page params0) = Inl (StripeError err) \<and>
           http_code err = status r"
proof -
  have "\<exists>err. StripeError_init (status r) (read_body r) = Inr err"
  proof (cases "read_body r")
    case (PDict b)
    with assms(4) show ?thesis
      by (cases "dict_get b ''error'' (PDict [])")
         (auto simp: StripeError_init_def Let_def)
  qed (simp_all add: StripeError_init_def Let_def)
  then obtain err where err: "StripeError_init (status r) (read_body r) = Inr err" by blast
  then have "http_code err = status r" by (rule StripeError_init_http_code)
  with err Client_req_outcome [OF assms(1), of session self "method" page] assms(2,3)
  show ?thesis by (simp add: Let_def)
qed

text \<open>
  A 200 answer to a request other than DELETE with a dictionary body: without an
  \<^verbatim>\<open>object\<close> key a \<^verbatim>\<open>ParseError\<close> citing the body, with one the outcome of the
  normalization, which is none of the three exceptions of the client.
\<close>

lemma Client_req_mapping_body:
  assumes "encode_params (case params0 of None \<Rightarrow> [] | Some p \<Rightarrow> p) = (ps, None)"
    and "r = session (make_request self method page ps)"
    and "status r = 200"
    and "upper method \<noteq> ''DELETE''"
    and "read_body r = PDict b"
  shows \<open>(map_of b ''object'' = None \<longrightarrow>
            snd (Client_req session self method page params0) =
              Inl (ParseError (''Stripe response missing "object": '' @ py_str (PDict b)))) \<and>
         (map_of b ''object'' \<noteq> None \<longrightarrow>
            snd (Client_req session self method page params0) = convert_json_response (PDict b) \<and>
            (\<forall>m. snd (Client_req session self method page params0) \<noteq> Inl (ParseError m)) \<and>
            (\<forall>m. snd (Client_req session self method page params0) \<noteq> Inl (DeletionError m)) \<and>
            (\<forall>e. snd (Client_req session self method page params0) \<noteq> Inl (StripeError e)))\<close>
proof -
  let ?res = "snd (Client_req session self method page params0)"
  note out = Client_req_outcome [OF assms(1), of session self "method" page]
  have absent: \<open>?res = Inl (ParseError (''Stripe response missing "object": '' @ py_str (PDict b)))\<close>
    if "map_of b ''object'' = None"
    using out assms(2-5) that by (simp add: Let_def)
  have present: "?res = convert_json_response (PDict b)" if "map_of b ''object'' \<noteq> None"
    using out assms(2-5) that by (simp add: Let_def del: convert_json_response.simps)
  have "?res \<noteq> Inl (ParseError m) \<and> ?res \<noteq> Inl (DeletionError m') \<and> ?res \<noteq> Inl (StripeError e)"
    if "map_of b ''object'' \<noteq> None" for m m' e
    using convert_errors [of "PDict b"] present [OF that]
    by (auto simp del: convert_json_response.simps)
  with absent present show ?thesis by blast
qed

section \<open>The dictionary after the call\<close>

subsection \<open>Names that are neither kept nor made\<close>

lemma flatten_absent:
  assumes "keys_stay_unique ps"
    and "x \<notin> fst ` set ps" and "x \<notin> set (concat (map flat_names ps))"
  shows "map_of (fst (flatten_keys (dict_keys ps) ps)) x = None"
proof -
  define D where "D k = (case map_of ps k of Some (PDict sub) \<Rightarrow> sub | _ \<Rightarrow> [])" for k
  have dist: "distinct (map fst ps)" using assms(1) by (rule unique_keys)
  have D: "D k = sub" if "(k, PDict sub) \<in> set ps" for k sub
    using that dist by (simp add: D_def)
  have in_keys: "\<exists>sub. (k, PDict sub) \<in> set ps \<and> D k = sub" if "k \<in> set (dict_keys ps)" for k
    using that D by (auto simp: dict_keys_iff)
  have "\<exists>out. flatten_keys (dict_keys ps) ps = (out, None) \<and>
           (\<forall>x \<in> set (dict_keys ps). map_of out x = None) \<and>
           (\<forall>key \<in> set (dict_keys ps). \<forall>(a, va) \<in> set (D key).
               map_of out (subparam key a) = Some va) \<and>
           (\<forall>x. x \<notin> set (dict_keys ps) \<and>
                 (\<forall>key \<in> set (dict_keys ps). x \<notin> subparam key ` fst ` set (D key))
                 \<longrightarrow> map_of out x = map_of ps x)"
  proof (rule flatten_keys_unique)
    show "distinct (dict_keys ps)" using dist by (rule distinct_dict_keys)
    show "\<forall>key \<in> set (dict_keys ps). map_of ps key = Some (PDict (D key))"
    proof
      fix key assume "key \<in> set (dict_keys ps)"
      from in_keys [OF this] obtain sub where "(key, PDict sub) \<in> set ps" "D key = sub" by blast
      then show "map_of ps key = Some (PDict (D key))" using dist by simp
    qed
    show "\<forall>key \<in> set (dict_keys ps). distinct (map fst (D key))"
    proof
      fix key assume "key \<in> set (dict_keys ps)"
      from in_keys [OF this] obtain sub where "(key, PDict sub) \<in> set ps" "D key = sub" by blast
      then show "distinct (map fst (D key))" using unique_sub [OF assms(1)] by blast
    qed
    show "\<forall>key \<in> set (dict_keys ps). \<forall>a \<in> fst ` set (D key). subparam key a \<notin> set (dict_keys ps)"
    proof (intro ballI notI)
      fix key a assume key: "key \<in> set (dict_keys ps)" and a: "a \<in> fst ` set (D key)"
        and bad: "subparam key a \<in> set (dict_keys ps)"
      from in_keys [OF key] obtain sub where sub: "(key, PDict sub) \<in> set ps" "D key = sub"
        by blast
      from a sub(2) have "a \<in> fst ` set sub" by simp
      from unique_fresh [OF assms(1) sub(1) this] have "subparam key a \<notin> fst ` set ps" .
      moreover from bad have "subparam key a \<in> fst ` set ps"
        by (force simp: dict_keys_iff)
      ultimately show False by simp
    qed
    show "\<forall>key \<in> set (dict_keys ps). \<forall>key' \<in> set (dict_keys ps).
            \<forall>a \<in> fst ` set (D key). \<forall>a' \<in> fst ` set (D key').
              subparam key a = subparam key' a' \<longrightarrow> key = key'"
    proof (intro ballI impI)
      fix key key' a a'
      assume key: "key \<in> set (dict_keys ps)" and key': "key' \<in> set (dict_keys ps)"
        and a: "a \<in> fst ` set (D key)" and a': "a' \<in> fst ` set (D key')"
        and eq: "subparam key a = subparam key' a'"
      from in_keys [OF key] obtain sub where s: "(key, PDict sub) \<in> set ps" "D key = sub"
        by blast
      from in_keys [OF key'] obtain sub' where s': "(key', PDict sub') \<in> set ps" "D key' = sub'"
        by blast
      show "key = key'"
        using unique_apart [OF assms(1) s(1) s'(1) _ _ eq] a a' s(2) s'(2) by simp
    qed
  qed
  then obtain out where out: "flatten_keys (dict_keys ps) ps = (out, None)"
    and kept: "\<And>x. x \<notin> set (dict_keys ps) \<Longrightarrow>
                 (\<forall>key \<in> set (dict_keys ps). x \<notin> subparam key ` fst ` set (D key)) \<Longrightarrow>
                 map_of out x = map_of ps x"
    by blast
  have 1: "x \<notin> set (dict_keys ps)"
    using assms(2) by (force simp: dict_keys_iff)
  have 2: "\<forall>key \<in> set (dict_keys ps). x \<notin> subparam key ` fst ` set (D key)"
  proof (intro ballI notI)
    fix key assume key: "key \<in> set (dict_keys ps)" and "x \<in> subparam key ` fst ` set (D key)"
    then obtain a where a: "a \<in> fst ` set (D key)" "x = subparam key a" by auto
    from in_keys [OF key] obtain sub where sub: "(key, PDict sub) \<in> set ps" "D key = sub"
      by blast
    from a(1) sub(2) have "a \<in> fst ` set sub" by simp
    then have "subparam key a \<in> set (flat_names (key, PDict sub))" by force
    then have "subparam key a \<in> set (concat (map flat_names ps))"
      using sub(1) by (auto simp del: flat_names.simps)
    with assms(3) a(2) show False by simp
  qed
  have "map_of out x = map_of ps x" using 1 2 by (rule kept)
  also have "\<dots> = None" using assms(2) by (simp add: map_of_eq_None_iff)
  finally show ?thesis using out by simp
qed

lemma set_flat_entry:
  "set (flat_entry (k, v)) =
     (if is_dict v
      then {(subparam k a, encoded_value va) | a va sub. v = PDict sub \<and> (a, va) \<in> set sub}
      else {(k, encoded_value v)})"
  by (cases v) force+

lemma set_flat_form:
  "set (flat_form ps) =
     {(k, encoded_value v) | k v. (k, v) \<in> set ps \<and> \<not> is_dict v} \<union>
     {(subparam k a, encoded_value va) | k sub a va. (k, PDict sub) \<in> set ps \<and> (a, va) \<in> set sub}"
  (is "?L = ?A \<union> ?B")
proof (intro set_eqI iffI)
  fix p assume "p \<in> ?L"
  then obtain q where q: "q \<in> set ps" "p \<in> set (flat_entry q)"
    by (auto simp: flat_form_def)
  obtain k v where kv: "q = (k, v)" by (cases q)
  show "p \<in> ?A \<union> ?B"
  proof (cases "is_dict v")
    case True
    from q(2) have "p \<in> set (flat_entry (k, v))" unfolding kv .
    then have "p \<in> {(subparam k a, encoded_value va) | a va sub.
                   v = PDict sub \<and> (a, va) \<in> set sub}"
      using True by (simp only: set_flat_entry if_True)
    then obtain a va sub where "p = (subparam k a, encoded_value va)" "v = PDict sub"
      "(a, va) \<in> set sub"
      by blast
    with q(1) kv have "p \<in> ?B" by blast
    then show ?thesis ..
  next
    case False
    from q(2) have "p \<in> set (flat_entry (k, v))" unfolding kv .
    then have "p = (k, encoded_value v)"
      using False by (simp only: set_flat_entry if_False singleton_iff)
    with q(1) kv False have "p \<in> ?A" by blast
    then show ?thesis ..
  qed
next
  fix p assume "p \<in> ?A \<union> ?B"
  then consider k v where "p = (k, encoded_value v)" "(k, v) \<in> set ps" "\<not> is_dict v"
    | k sub a va where "p = (subparam k a, encoded_value va)" "(k, PDict sub) \<in> set ps"
        "(a, va) \<in> set sub"
    by blast
  then show "p \<in> ?L"
  proof cases
    case 1
    from 1(1,3) have "p \<in> set (flat_entry (k, v))"
      by (simp only: set_flat_entry if_False singleton_iff)
    with 1(2) show ?thesis unfolding flat_form_def by (auto simp del: flat_entry.simps)
  next
    case 2
    from 2(1,3) have "p \<in> set (flat_entry (k, PDict sub))" by force
    with 2(2) show ?thesis unfolding flat_form_def by (auto simp del: flat_entry.simps)
  qed
qed

lemma encode_params_unique_set:
  assumes "keys_stay_unique ps"
  shows "\<exists>out. encode_params ps = (out, None) \<and> distinct (map fst out) \<and>
           set out = set (flat_form ps)"
proof -
  from encode_params_unique [OF assms] obtain out where
    H: "encode_params ps = (out, None) \<and> distinct (map fst out) \<and>
           (\<forall>k sub. (k, PDict sub) \<in> set ps \<longrightarrow> map_of out k = None) \<and>
           (\<forall>k sub a va. (k, PDict sub) \<in> set ps \<and> (a, va) \<in> set sub \<longrightarrow>
                map_of out (subparam k a) = Some (encoded_value va)) \<and>
           (\<forall>k v. (k, v) \<in> set ps \<and> \<not> is_dict v \<longrightarrow> map_of out k = Some (encoded_value v))" ..
  then have enc: "encode_params ps = (out, None)" and dist: "distinct (map fst out)" by blast+
  obtain mid r where fl: "flatten_keys (dict_keys ps) ps = (mid, r)"
    by (cases "flatten_keys (dict_keys ps) ps")
  with enc have out: "out = bools_to_strings mid"
    by (auto simp: encode_params_def split: option.splits)
  have dmid: "distinct (map fst mid)"
    using distinct_flatten_keys [OF unique_keys [OF assms], of "dict_keys ps"] fl by simp
  have absent: "map_of out x = None"
    if "x \<notin> fst ` set ps" "x \<notin> set (concat (map flat_names ps))" for x
    using flatten_absent [OF assms that] fl
    by (simp add: out map_of_bools_to_strings [OF dmid])
  have sub1: "set (flat_form ps) \<subseteq> set out"
  proof
    fix p assume "p \<in> set (flat_form ps)"
    then consider k v where "p = (k, encoded_value v)" "(k, v) \<in> set ps" "\<not> is_dict v"
      | k sub a va where "p = (subparam k a, encoded_value va)" "(k, PDict sub) \<in> set ps"
          "(a, va) \<in> set sub"
      unfolding set_flat_form by blast
    then show "p \<in> set out"
    proof cases
      case 1
      with H have "map_of out k = Some (encoded_value v)" by blast
      then show ?thesis unfolding 1(1) by (rule map_of_SomeD)
    next
      case 2
      with H have "map_of out (subparam k a) = Some (encoded_value va)" by blast
      then show ?thesis unfolding 2(1) by (rule map_of_SomeD)
    qed
  qed
  have sub2: "set out \<subseteq> set (flat_form ps)"
  proof
    fix p assume p: "p \<in> set out"
    obtain x w where xw: "p = (x, w)" by (cases p)
    with p dist have m: "map_of out x = Some w" by simp
    show "p \<in> set (flat_form ps)"
    proof (cases "x \<in> set (concat (map flat_names ps))")
      case True
      then obtain q where q: "q \<in> set ps" "x \<in> set (flat_names q)" by auto
      obtain k v where kv: "q = (k, v)" by (cases q)
      from q(2) kv obtain sub where sub: "v = PDict sub" by (cases v) auto
      with q(2) kv obtain a va where a: "(a, va) \<in> set sub" "x = subparam k a" by auto
      with H q(1) kv sub have "map_of out x = Some (encoded_value va)" by blast
      with m have "w = encoded_value va" by simp
      with a q(1) kv sub show ?thesis unfolding set_flat_form xw by blast
    next
      case False
      show ?thesis
      proof (cases "x \<in> fst ` set ps")
        case True
        then obtain v where v: "(x, v) \<in> set ps" by auto
        show ?thesis
        proof (cases "is_dict v")
          case True
          then obtain sub where "v = PDict sub" by (cases v) auto
          with H v have "map_of out x = None" by blast
          with m show ?thesis by simp
        next
          case nd: False
          with H v have "map_of out x = Some (encoded_value v)" by blast
          with m have "w = encoded_value v" by simp
          with v nd show ?thesis unfolding set_flat_form xw by blast
        qed
      next
        case nk: False
        from absent [OF nk False] m show ?thesis by simp
      qed
    qed
  qed
  from enc dist sub1 sub2 show ?thesis by blast
qed

subsection \<open>The store\<close>

lemma values_of_Nil: "values_of st [] = []"
  by (simp add: values_of_def)

lemma values_of_Cons: "values_of st ((k, v) # ps) = (k, value_of st v) # values_of st ps"
  by (simp add: values_of_def)

lemma map_of_values_of: "map_of (values_of st ps) k = map_option (value_of st) (map_of ps k)"
  by (induction ps) (auto simp: values_of_def)

lemma values_of_update:
  "values_of st (AList.update k v ps) = AList.update k (value_of st v) (values_of st ps)"
  by (induction ps) (auto simp: values_of_def)

lemma values_of_delete: "values_of st (AList.delete k ps) = AList.delete k (values_of st ps)"
  by (induction ps) (auto simp: values_of_def)

lemma values_of_fold_Val:
  "values_of st (fold (\<lambda>(a, v). AList.update (f a) (Val v)) sub ps)
     = fold (\<lambda>(a, v). AList.update (f a) v) sub (values_of st ps)"
  by (induction sub arbitrary: ps) (auto simp: values_of_update)

lemma values_of_fold:
  "values_of st (fold (\<lambda>(k, v). AList.update k v) us ps)
     = fold (\<lambda>(k, v). AList.update k v) (values_of st us) (values_of st ps)"
  by (induction us arbitrary: ps) (auto simp: values_of_update values_of_Nil values_of_Cons)

lemma values_of_flatten_key:
  "values_of st (flatten_key_st key sub ps) = flatten_key key sub (values_of st ps)"
  by (simp add: flatten_key_st_def flatten_key_def values_of_delete values_of_fold_Val)

lemma dict_keys_values_of: "dict_keys (values_of st ps) = dict_keys_st st ps"
  by (induction ps) (auto simp: dict_keys_def dict_keys_st_def values_of_def)

lemma bool_updates_values_of: "bool_updates (values_of st ps) = values_of st (bool_updates_st st ps)"
  by (induction ps) (auto simp: bool_updates_def bool_updates_st_def values_of_def)

lemma flatten_keys_st_store: "snd (fst (flatten_keys_st keys ps st)) = st"
  by (induction keys ps st rule: flatten_keys_st.induct)
     (auto split: option.splits pyval.splits)

lemma flatten_keys_st_values:
  "values_of st (fst (fst (flatten_keys_st keys ps st))) = fst (flatten_keys keys (values_of st ps)) \<and>
   snd (flatten_keys_st keys ps st) = snd (flatten_keys keys (values_of st ps))"
  by (induction keys ps st rule: flatten_keys_st.induct)
     (auto simp: map_of_values_of values_of_flatten_key split: option.splits pyval.splits)

lemma encode_params_st_store: "snd (fst (encode_params_st ps st)) = st"
proof -
  obtain ps' st' e where f: "flatten_keys_st (dict_keys_st st ps) ps st = ((ps', st'), e)"
    by (metis surj_pair)
  with flatten_keys_st_store [of "dict_keys_st st ps" ps st] have "st' = st" by simp
  with f show ?thesis
    by (cases e) (simp_all add: encode_params_st_def bools_to_strings_st_def)
qed

lemma encode_params_st_values:
  "values_of st (fst (fst (encode_params_st ps st))) = fst (encode_params (values_of st ps)) \<and>
   snd (encode_params_st ps st) = snd (encode_params (values_of st ps))"
proof -
  obtain ps' st' e where f: "flatten_keys_st (dict_keys_st st ps) ps st = ((ps', st'), e)"
    by (metis surj_pair)
  with flatten_keys_st_store [of "dict_keys_st st ps" ps st] have st': "st' = st" by simp
  obtain qs e' where g: "flatten_keys (dict_keys (values_of st ps)) (values_of st ps) = (qs, e')"
    by (metis surj_pair)
  from flatten_keys_st_values [of st "dict_keys_st st ps" ps] f g
  have l: "qs = values_of st ps'" "e' = e" by (simp_all add: dict_keys_values_of)
  show ?thesis
    using f g st' unfolding l
    by (cases e)
       (simp_all add: encode_params_st_def encode_params_def bools_to_strings_st_def
          bools_to_strings_def values_of_fold bool_updates_values_of)
qed

lemma fst_Client_req_st:
  "fst (Client_req_st session self verb page params0 st)
     = fst (encode_params_st (case params0 of None \<Rightarrow> [] | Some p \<Rightarrow> p) st)"
  by (simp add: Client_req_st_def split: prod.splits option.splits)

lemma Client_req_st_store: "snd (fst (Client_req_st session self verb page params0 st)) = st"
  by (simp add: fst_Client_req_st encode_params_st_store)

lemma Client_req_st_storeD:
  "Client_req_st session self verb page params0 st = ((ps', st'), out) \<Longrightarrow> st' = st"
  using Client_req_st_store [of session self verb page params0 st] by simp

lemma Client_req_st_values:
  "values_of st (fst (fst (Client_req_st session self verb page params0 st)))
     = fst (Client_req session self verb page (map_option (values_of st) params0))"
  by (cases params0)
     (simp_all add: fst_Client_req_st fst_Client_req encode_params_st_values values_of_Nil)

lemma Client_req_st_outcome:
  "snd (Client_req_st session self verb page params0 st)
     = snd (Client_req session self verb page (map_option (values_of st) params0))"
proof -
  define ps where "ps = (case params0 of None \<Rightarrow> [] | Some p \<Rightarrow> p)"
  have vs: "(case map_option (values_of st) params0 of None \<Rightarrow> [] | Some p \<Rightarrow> p) = values_of st ps"
    by (cases params0) (simp_all add: ps_def values_of_Nil)
  obtain ps' st' e where f: "encode_params_st ps st = ((ps', st'), e)"
    by (metis surj_pair)
  with encode_params_st_store [of ps st] have st': "st' = st" by simp
  obtain qs e' where g: "encode_params (values_of st ps) = (qs, e')"
    by (metis surj_pair)
  from encode_params_st_values [of st ps] f g
  have l: "qs = values_of st ps'" "e' = e" by simp_all
  show ?thesis
    unfolding Client_req_st_def Client_req_def vs ps_def [symmetric] f g l st'
    by (cases e) simp_all
qed

lemma create_charge_st_store: "fst (create_charge_st session self amount currency kwds st) = st"
  by (auto simp: create_charge_st_def Let_def split: prod.splits dest: Client_req_st_storeD)

lemma retrieve_charge_st_store: "fst (retrieve_charge_st session self charge_id st) = st"
  by (auto simp: retrieve_charge_st_def Let_def split: prod.splits dest: Client_req_st_storeD)

lemma update_charge_st_store: "fst (update_charge_st session self charge_id kwds st) = st"
  by (auto simp: update_charge_st_def Let_def split: prod.splits dest: Client_req_st_storeD)

lemma capture_charge_st_store: "fst (capture_charge_st session self charge_id kwds st) = st"
  by (auto simp: capture_charge_st_def Let_def split: prod.splits dest: Client_req_st_storeD)

lemma list_charges_st_store: "fst (list_charges_st session self kwds st) = st"
  by (auto simp: list_charges_st_def Let_def split: prod.splits dest: Client_req_st_storeD)

lemma create_customer_st_store: "fst (create_customer_st session self kwds st) = st"
  by (auto simp: create_customer_st_def Let_def split: prod.splits dest: Client_req_st_storeD)

lemma retrieve_customer_st_store: "fst (retrieve_customer_st session self customer_id st) = st"
  by (auto simp: retrieve_customer_st_def Let_def split: prod.splits dest: Client_req_st_storeD)

lemma update_customer_st_store: "fst (update_customer_st session self customer_id kwds st) = st"
  by (auto simp: update_customer_st_def Let_def split: prod.splits dest: Client_req_st_storeD)

lemma delete_customer_st_store: "fst (delete_customer_st session self customer_id st) = st"
  by (auto simp: delete_customer_st_def Let_def split: prod.splits dest: Client_req_st_storeD)

lemma list_customers_st_store: "fst (list_customers_st session self kwds st) = st"
  by (auto simp: list_customers_st_def Let_def split: prod.splits dest: Client_req_st_storeD)

lemma create_card_st_store: "fst (create_card_st session self customer_id source metadata st) = st"
  by (auto simp: create_card_st_def Let_def split: prod.splits dest: Client_req_st_storeD)

lemma delete_card_st_store: "fst (delete_card_st session self customer_id source_id st) = st"
  by (auto simp: delete_card_st_def Let_def split: prod.splits dest: Client_req_st_storeD)

lemma update_card_st_store: "fst (update_card_st session self customer_id source_id kwds st) = st"
  by (auto simp: update_card_st_def Let_def split: prod.splits dest: Client_req_st_storeD)

lemma create_refund_st_store: "fst (create_refund_st session self charge_id kwds st) = st"
  by (auto simp: create_refund_st_def Let_def split: prod.splits dest: Client_req_st_storeD)

lemma retrieve_refund_st_store: "fst (retrieve_refund_st session self refund_id st) = st"
  by (auto simp: retrieve_refund_st_def Let_def split: prod.splits dest: Client_req_st_storeD)

lemma update_refund_st_store: "fst (update_refund_st session self refund_id metadata st) = st"
  by (auto simp: update_refund_st_def Let_def split: prod.splits dest: Client_req_st_storeD)

lemma list_refunds_st_store: "fst (list_refunds_st session self kwds st) = st"
  by (auto simp: list_refunds_st_def Let_def split: prod.splits dest: Client_req_st_storeD)

lemma create_source_st_store: "fst (create_source_st session self kwds st) = st"
  by (auto simp: create_source_st_def Let_def split: prod.splits dest: Client_req_st_storeD)

lemma retrieve_source_st_store: "fst (retrieve_source_st session self source_id st) = st"
  by (auto simp: retrieve_source_st_def Let_def split: prod.splits dest: Client_req_st_storeD)

subsection \<open>The caller's dictionary\<close>

text \<open>
  When a name made by the flattening is already a key, the loop can stop with an
  exception and leave the dictionary partly rewritten: the key \<^verbatim>\<open>k\<close> is gone, the boolean
  is still a boolean.
\<close>

lemma Client_req_stops_midway:
  "Client_req
     (\<lambda>rq. \<lparr>status = 200, content_type = Some ''application/json'',
             json = PDict [(''object'', PStr ''charge'')], raw = ''''\<rparr>)
     (Client_init ''secret_key'' DEFAULT_VERSION) ''post'' ''/charges''
     (Some [(''k'', PDict [(''a'', PInt 1)]), (''k[a]'', PDict [(''b'', PInt 2)]),
            (''flag'', PBool True)])
     = ([(''k[a]'', PInt 1), (''flag'', PBool True)], Inl AttributeError)"
  by code_simp

text \<open>
  C9. \<^verbatim>\<open>_req\<close> rewrites the dictionary it is given and makes no copy of it. With distinct
  keys, the dictionary is after the call what it was before exactly when it has no
  dictionary and no boolean among its values. When the names stay unique under the
  flattening, the encoding succeeds and the dictionary then holds exactly the flattened
  form, with distinct keys. The dictionaries nested in the parameters are only read:
  \<^verbatim>\<open>_req\<close> leaves every object of the store as it was, its dictionary and its outcome are
  those of the encoding of the values, and every endpoint method leaves the store as it
  was.
\<close>

theorem Client_req_params_in_place:
  "(distinct (map fst ps) \<longrightarrow>
      (fst (Client_req session self verb page (Some ps)) = ps \<longleftrightarrow>
         (\<forall>v \<in> snd ` set ps. \<not> is_dict v \<and> \<not> is_bool v))) \<and>
   (keys_stay_unique ps \<longrightarrow>
      encode_params ps = (fst (Client_req session self verb page (Some ps)), None) \<and>
      distinct (map fst (fst (Client_req session self verb page (Some ps)))) \<and>
      set (fst (Client_req session self verb page (Some ps))) = set (flat_form ps)) \<and>
   snd (fst (Client_req_st session self verb page params0 st)) = st \<and>
   values_of st (fst (fst (Client_req_st session self verb page params0 st)))
     = fst (Client_req session self verb page (map_option (values_of st) params0)) \<and>
   snd (Client_req_st session self verb page params0 st)
     = snd (Client_req session self verb page (map_option (values_of st) params0)) \<and>
   fst (create_charge_st session self amount currency kwds st) = st \<and>
   fst (retrieve_charge_st session self charge_id st) = st \<and>
   fst (update_charge_st session self charge_id kwds st) = st \<and>
   fst (capture_charge_st session self charge_id kwds st) = st \<and>
   fst (list_charges_st session self kwds st) = st \<and>
   fst (create_customer_st session self kwds st) = st \<and>
   fst (retrieve_customer_st session self customer_id st) = st \<and>
   fst (update_customer_st session self customer_id kwds st) = st \<and>
   fst (delete_customer_st session self customer_id st) = st \<and>
   fst (list_customers_st session self kwds st) = st \<and>
   fst (create_card_st session self customer_id source metadata st) = st \<and>
   fst (delete_card_st session self customer_id source_id st) = st \<and>
   fst (update_card_st session self customer_id source_id kwds st) = st \<and>
   fst (create_refund_st session self charge_id kwds st) = st \<and>
   fst (retrieve_refund_st session self refund_id st) = st \<and>
   fst (update_refund_st session self refund_id metadata st) = st \<and>
   fst (list_refunds_st session self kwds st) = st \<and>
   fst (create_source_st session self kwds st) = st \<and>
   fst (retrieve_source_st session self source_id st) = st"
proof -
  have same: "fst (Client_req session self verb page (Some ps)) = ps \<longleftrightarrow>
                (\<forall>v \<in> snd ` set ps. \<not> is_dict v \<and> \<not> is_bool v)"
    if d: "distinct (map fst ps)"
  proof
    assume same: "fst (Client_req session self verb page (Some ps)) = ps"
    show "\<forall>v \<in> snd ` set ps. \<not> is_dict v \<and> \<not> is_bool v"
    proof (rule ccontr)
      assume "\<not> (\<forall>v \<in> snd ` set ps. \<not> is_dict v \<and> \<not> is_bool v)"
      then obtain k v where "(k, v) \<in> set ps" "is_dict v \<or> is_bool v" by auto
      from encode_params_changed [OF d this] same show False
        by (simp add: fst_Client_req)
    qed
  next
    assume "\<forall>v \<in> snd ` set ps. \<not> is_dict v \<and> \<not> is_bool v"
    then have "encode_params ps = (ps, None)" by (rule encode_params_unchanged)
    then show "fst (Client_req session self verb page (Some ps)) = ps"
      by (simp add: fst_Client_req)
  qed
  have flat: "encode_params ps = (fst (Client_req session self verb page (Some ps)), None) \<and>
      distinct (map fst (fst (Client_req session self verb page (Some ps)))) \<and>
      set (fst (Client_req session self verb page (Some ps))) = set (flat_form ps)"
    if u: "keys_stay_unique ps"
  proof -
    from encode_params_unique_set [OF u] obtain out where
      "encode_params ps = (out, None)" "distinct (map fst out)" "set out = set (flat_form ps)"
      by blast
    then show ?thesis by (simp add: fst_Client_req)
  qed
  note store = Client_req_st_store [of session self verb page params0 st]
    Client_req_st_values [of st session self verb page params0]
    Client_req_st_outcome [of session self verb page params0 st]
  note endpoints =
    create_charge_st_store retrieve_charge_st_store update_charge_st_store
    capture_charge_st_store list_charges_st_store create_customer_st_store
    retrieve_customer_st_store update_customer_st_store delete_customer_st_store
    list_customers_st_store create_card_st_store delete_card_st_store update_card_st_store
    create_refund_st_store retrieve_refund_st_store update_refund_st_store
    list_refunds_st_store create_source_st_store retrieve_source_st_store
  show ?thesis
    by (intro conjI impI same flat store endpoints)
qed

theorem Client_req_params_in_place_witness:
  "fst (Client_req
          (\<lambda>rq. \<lparr>status = 200, content_type = Some ''application/json'',
                  json = PDict [(''object'', PStr ''charge'')], raw = ''''\<rparr>)
          (Client_init ''secret_key'' DEFAULT_VERSION) ''post'' ''/charges''
          (Some [(''amount'', PInt 103), (''currency'', PStr ''usd'')]))
     = [(''amount'', PInt 103), (''currency'', PStr ''usd'')] \<and>
   fst (Client_req
          (\<lambda>rq. \<lparr>status = 200, content_type = Some ''application/json'',
                  json = PDict [(''object'', PStr ''charge'')], raw = ''''\<rparr>)
          (Client_init ''secret_key'' DEFAULT_VERSION) ''post'' ''/charges''
          (Some [(''amount'', PInt 103), (''capture'', PBool False)]))
     \<noteq> [(''amount'', PInt 103), (''capture'', PBool False)] \<and>
   keys_stay_unique [(''metadata'', PDict [(''a'', PStr ''hi'')]), (''flag'', PBool True)] \<and>
   set (fst (Client_req
          (\<lambda>rq. \<lparr>status = 200, content_type = Some ''application/json'',
                  json = PDict [(''object'', PStr ''charge'')], raw = ''''\<rparr>)
          (Client_init ''secret_key'' DEFAULT_VERSION) ''post'' ''/charges''
          (Some [(''metadata'', PDict [(''a'', PStr ''hi'')]), (''flag'', PBool True)])))
     = {(''metadata[a]'', PStr ''hi''), (''flag'', PStr ''true'')} \<and>
   fst (update_refund_st
          (\<lambda>rq. \<lparr>status = 200, content_type = Some ''application/json'',
                  json = PDict [(''object'', PStr ''refund'')], raw = ''''\<rparr>)
          (Client_init ''secret_key'' DEFAULT_VERSION) (Val (PStr ''re_1'')) (Ref 0)
          (\<lambda>a. [(''order'', PStr ''A1'')])) 0
     = [(''order'', PStr ''A1'')]"
proof -
  let ?S = "\<lambda>rq. \<lparr>status = 200, content_type = Some ''application/json'',
                  json = PDict [(''object'', PStr ''charge'')], raw = ''''\<rparr>"
  let ?S' = "\<lambda>rq. \<lparr>status = 200, content_type = Some ''application/json'',
                  json = PDict [(''object'', PStr ''refund'')], raw = ''''\<rparr>"
  let ?C = "Client_init ''secret_key'' DEFAULT_VERSION"
  let ?ps1 = "[(''amount'', PInt 103), (''currency'', PStr ''usd'')]"
  let ?ps2 = "[(''amount'', PInt 103), (''capture'', PBool False)]"
  let ?ps3 = "[(''metadata'', PDict [(''a'', PStr ''hi'')]), (''flag'', PBool True)]"
  have u: "keys_stay_unique ?ps3" by code_simp
  have f: "flat_form ?ps3 = [(''metadata[a]'', PStr ''hi''), (''flag'', PStr ''true'')]"
    by code_simp
  have 1: "fst (Client_req ?S ?C ''post'' ''/charges'' (Some ?ps1)) = ?ps1"
    using Client_req_params_in_place
            [where ps = ?ps1 and session = ?S and self = ?C and verb = "''post''"
               and page = "''/charges''", THEN conjunct1]
    by simp
  have 2: "fst (Client_req ?S ?C ''post'' ''/charges'' (Some ?ps2)) \<noteq> ?ps2"
    using Client_req_params_in_place
            [where ps = ?ps2 and session = ?S and self = ?C and verb = "''post''"
               and page = "''/charges''", THEN conjunct1]
    by simp
  have 3: "set (fst (Client_req ?S ?C ''post'' ''/charges'' (Some ?ps3)))
             = {(''metadata[a]'', PStr ''hi''), (''flag'', PStr ''true'')}"
    using Client_req_params_in_place
            [where ps = ?ps3 and session = ?S and self = ?C and verb = "''post''"
               and page = "''/charges''", THEN conjunct2, THEN conjunct1] u
    by (simp only: f simp_thms list.set)
  have 4: "fst (update_refund_st ?S' ?C (Val (PStr ''re_1'')) (Ref 0)
                  (\<lambda>a. [(''order'', PStr ''A1'')])) 0 = [(''order'', PStr ''A1'')]"
    using Client_req_params_in_place
            [where session = ?S' and self = ?C and refund_id = "Val (PStr ''re_1'')"
               and metadata = "Ref 0" and st = "\<lambda>a. [(''order'', PStr ''A1'')]"]
    by simp
  from 1 2 u 3 4 show ?thesis by (intro conjI)
qed

text \<open>
  A dictionary with a nested dictionary and a boolean is not what it was after the call.
\<close>

theorem Client_req_mutates_params:
  "fst (Client_req
          (\<lambda>rq. \<lparr>status = 200, content_type = Some ''application/json'',
                  json = PDict [(''object'', PStr ''charge'')], raw = ''''\<rparr>)
          (Client_init ''secret_key'' DEFAULT_VERSION) ''post'' ''/charges''
          (Some [(''metadata'', PDict [(''a'', PStr ''hi'')]), (''flag'', PBool True)]))
     = [(''flag'', PStr ''true''), (''metadata[a]'', PStr ''hi'')]"
  by code_simp

end
